theory Spec2Isabelle
  imports Complex_Main "HOL-Library.Log_Nat"
begin

section \<open>Errors and floating-point values\<close>

text \<open>
  The exceptions the notebook's code can raise. \<open>torch.stack\<close> raises a
  \<open>RuntimeError\<close> both for an empty list of tensors and for tensors of different
  sizes; the two are kept apart here by their message.
\<close>

datatype error =
    IndexError
  | ZeroDivisionError
  | OverflowError
  | ValueError
  | FileNotFoundError
  | NotADirectoryError
  | RuntimeError_stack_empty
  | RuntimeError_stack_size

text \<open>
  A floating-point value: a finite number (its exact value), an infinity or a NaN.
  The two zeros are not told apart; the code never divides by a zero, which is where
  they would differ.
\<close>

datatype fval = Finite rat | PosInf | NegInf | NaN

instantiation fval :: zero
begin

definition zero_fval :: fval where
  "zero_fval = Finite 0"

instance ..

end

text \<open>The nearest integer, a tie going to the even neighbour.\<close>

definition round_half_even :: "rat \<Rightarrow> int" where
  "round_half_even x =
     (let f = \<lfloor>x\<rfloor>; d = x - of_int f
      in if d < 1 / 2 then f
         else if 1 / 2 < d then f + 1
         else if even f then f else f + 1)"

text \<open>
  IEEE 754 rounding to nearest, ties to even, into the binary format with \<open>p\<close>
  significand bits and exponents from \<open>emin\<close> to \<open>emax\<close>. For a positive
  \<open>a\<close>, \<open>floor_log2 a\<close> is the \<open>e\<close> with \<open>2^e \<le> a < 2^(e+1)\<close>; the spacing of
  the format's values around \<open>a\<close> is \<open>2^(e - (p - 1))\<close>, with \<open>e\<close> no smaller than
  \<open>emin\<close> (the subnormal range). A result of magnitude \<open>2^(emax+1)\<close> or more is an
  infinity.
\<close>

definition floor_log2 :: "rat \<Rightarrow> int" where
  "floor_log2 a =
     (let e0 = bitlen (fst (quotient_of a)) - bitlen (snd (quotient_of a))
      in if 2 powi e0 \<le> a then e0 else e0 - 1)"

definition ieee_mag :: "nat \<Rightarrow> int \<Rightarrow> rat \<Rightarrow> rat" where
  "ieee_mag p emin a =
     (let e = max (floor_log2 a) emin;
          ulp = 2 powi (e - (int p - 1))
      in of_int (round_half_even (a / ulp)) * ulp)"

definition ieee_round :: "nat \<Rightarrow> int \<Rightarrow> int \<Rightarrow> rat \<Rightarrow> fval" where
  "ieee_round p emin emax q =
     (if q = 0 then Finite 0
      else
        let r = ieee_mag p emin \<bar>q\<bar>
        in if 2 powi (emax + 1) \<le> r then (if 0 < q then PosInf else NegInf)
           else Finite (if 0 < q then r else - r))"

text \<open>Rounding to a double (Python's \<open>float\<close>, torch's float64) and to float32.\<close>

definition to_double :: "rat \<Rightarrow> fval" where
  "to_double q = ieee_round 53 (- 1022) 1023 q"

definition to_single :: "rat \<Rightarrow> fval" where
  "to_single q = ieee_round 24 (- 126) 127 q"

section \<open>Tensors\<close>

text \<open>
  A tensor is its dtype, its shape and its elements in row-major order, as torch stores
  a contiguous tensor.
\<close>

datatype ('d, 'a) tensor = Tensor (dtype: 'd) (shape: "nat list") (data: "'a list")

text \<open>
  What the code uses of torch's type system: the default dtype, which
  \<open>torch.zeros(shape)\<close> takes (float32 unless \<open>torch.set_default_dtype\<close> was
  called, which the notebook never does); the dtype two different dtypes promote to; and
  the conversion of an element from one dtype to another.
\<close>

record ('d, 'a) torch =
  default_dtype :: 'd
  promote_types :: "'d \<Rightarrow> 'd \<Rightarrow> 'd"
  convert :: "'d \<Rightarrow> 'd \<Rightarrow> 'a \<Rightarrow> 'a"

definition numel :: "nat list \<Rightarrow> nat" where
  "numel s = prod_list s"

definition well_formed :: "('d, 'a) tensor \<Rightarrow> bool" where
  "well_formed t = (length (data t) = numel (shape t))"

definition torch_zeros :: "('d, 'a::zero) torch \<Rightarrow> nat list \<Rightarrow> ('d, 'a) tensor" where
  "torch_zeros T s = Tensor (default_dtype T) s (replicate (numel s) 0)"

text \<open>
  \<open>torch.stack\<close> gives its result the dtype all inputs promote to and converts
  every input to it; inputs of one dtype keep it and are copied as they are.
\<close>

definition result_dtype :: "('d, 'a) torch \<Rightarrow> ('d, 'a) tensor list \<Rightarrow> 'd" where
  "result_dtype T ts =
     (case ts of
        [] \<Rightarrow> default_dtype T
      | t0 # rest \<Rightarrow>
          if list_all (\<lambda>t. dtype t = dtype t0) rest then dtype t0
          else foldl (promote_types T) (dtype t0) (map dtype rest))"

definition to_dtype :: "('d, 'a) torch \<Rightarrow> 'd \<Rightarrow> ('d, 'a) tensor \<Rightarrow> 'a list" where
  "to_dtype T d t = (if dtype t = d then data t else map (convert T (dtype t) d) (data t))"

definition torch_stack ::
  "('d, 'a) torch \<Rightarrow> ('d, 'a) tensor list \<Rightarrow> error + ('d, 'a) tensor" where
  "torch_stack T ts =
     (case ts of
        [] \<Rightarrow> Inl RuntimeError_stack_empty
      | t0 # _ \<Rightarrow>
          if list_ex (\<lambda>t. shape t \<noteq> shape t0) ts then Inl RuntimeError_stack_size
          else Inr (Tensor (result_dtype T ts) (length ts # shape t0)
                      (concat (map (to_dtype T (result_dtype T ts)) ts))))"

text \<open>\<open>t[i]\<close> for a non-negative index: the \<open>i\<close>-th slice along the first dimension.\<close>

definition tensor_select :: "('d, 'a) tensor \<Rightarrow> nat \<Rightarrow> error + ('d, 'a) tensor" where
  "tensor_select t i =
     (case shape t of
        [] \<Rightarrow> Inl IndexError
      | n # s \<Rightarrow>
          if i < n
          then Inr (Tensor (dtype t) s (take (numel s) (drop (i * numel s) (data t))))
          else Inl IndexError)"

text \<open>
  The part of torch's type system the concrete examples below run on: float32, float64
  and int64 tensors with elements of type \<open>fval\<close>. An integer promotes to the float
  it meets and float32 to float64; promotion never converts to an integer dtype.
\<close>

datatype scalar_type = Float32 | Float64 | Int64

definition promote_scalar :: "scalar_type \<Rightarrow> scalar_type \<Rightarrow> scalar_type" where
  "promote_scalar a b =
     (if a = b then a else if a = Float64 \<or> b = Float64 then Float64 else Float32)"

definition convert_scalar :: "scalar_type \<Rightarrow> scalar_type \<Rightarrow> fval \<Rightarrow> fval" where
  "convert_scalar src dst v =
     (case v of
        Finite x \<Rightarrow>
          (case dst of Float32 \<Rightarrow> to_single x | Float64 \<Rightarrow> to_double x | Int64 \<Rightarrow> v)
      | _ \<Rightarrow> v)"

definition torch_cpu :: "(scalar_type, fval) torch" where
  "torch_cpu =
     \<lparr>default_dtype = Float32, promote_types = promote_scalar, convert = convert_scalar\<rparr>"

section \<open>WindowBuilder: \<open>prepare_data\<close>\<close>

text \<open>The three context slots the loop body appends for index \<open>i\<close>.\<close>

definition context_row ::
  "('d, 'a) tensor \<Rightarrow> ('d, 'a) tensor list \<Rightarrow> nat \<Rightarrow> ('d, 'a) tensor list" where
  "context_row null_frame embedded_frames i =
     [ if int i - 3 < 0 then null_frame else embedded_frames ! (i - 3),
       if int i - 2 < 0 then null_frame else embedded_frames ! (i - 2),
       if int i - 1 < 0 then null_frame else embedded_frames ! (i - 1) ]"

text \<open>The comprehension \<open>[torch.stack(x) for x in X]\<close>: the first failure aborts.\<close>

fun stack_all ::
  "('d, 'a) torch \<Rightarrow> ('d, 'a) tensor list list \<Rightarrow> error + ('d, 'a) tensor list" where
  "stack_all T [] = Inr []"
| "stack_all T (x # xs) =
     (case torch_stack T x of
        Inl e \<Rightarrow> Inl e
      | Inr t \<Rightarrow> (case stack_all T xs of Inl e \<Rightarrow> Inl e | Inr ts \<Rightarrow> Inr (t # ts)))"

definition prepare_data ::
  "('d, 'a::zero) torch \<Rightarrow> ('d, 'a) tensor list \<Rightarrow>
   error + (('d, 'a) tensor \<times> ('d, 'a) tensor)" where
  "prepare_data T embedded_frames =
     (case embedded_frames of
        [] \<Rightarrow> Inl IndexError
      | e0 # _ \<Rightarrow>
          let null_frame = torch_zeros T (shape e0);
              X = map (context_row null_frame embedded_frames) [0..<length embedded_frames];
              y = map (\<lambda>i. embedded_frames ! i) [0..<length embedded_frames]
          in (case stack_all T X of
                Inl e \<Rightarrow> Inl e
              | Inr rows \<Rightarrow>
                  (case torch_stack T rows of
                     Inl e \<Rightarrow> Inl e
                   | Inr Xt \<Rightarrow>
                       (case torch_stack T y of
                          Inl e \<Rightarrow> Inl e
                        | Inr yt \<Rightarrow> Inr (Xt, yt)))))"

text \<open>
  How a consumer reads the returned pair \<open>(X, y)\<close>: \<open>len(t)\<close>, the slices
  \<open>list(t)\<close> of a tensor along its first dimension, and Example \<open>i\<close> as
  \<open>(list(X[i]), y[i])\<close>.
\<close>

definition tensor_len :: "('d, 'a) tensor \<Rightarrow> nat option" where
  "tensor_len t = (case shape t of [] \<Rightarrow> None | n # _ \<Rightarrow> Some n)"

definition unbind :: "('d, 'a) tensor \<Rightarrow> error + ('d, 'a) tensor list" where
  "unbind t =
     (case shape t of
        [] \<Rightarrow> Inl IndexError
      | n # s \<Rightarrow>
          Inr (map (\<lambda>i. Tensor (dtype t) s (take (numel s) (drop (i * numel s) (data t))))
                 [0..<n]))"

definition example_at ::
  "('d, 'a) tensor \<times> ('d, 'a) tensor \<Rightarrow> nat \<Rightarrow>
   error + (('d, 'a) tensor list \<times> ('d, 'a) tensor)" where
  "example_at Xy i =
     (case tensor_select (fst Xy) i of
        Inl e \<Rightarrow> Inl e
      | Inr c \<Rightarrow>
          (case unbind c of
             Inl e \<Rightarrow> Inl e
           | Inr slots \<Rightarrow>
               (case tensor_select (snd Xy) i of
                  Inl e \<Rightarrow> Inl e
                | Inr t \<Rightarrow> Inr (slots, t))))"

text \<open>
  The property the specification states of WindowBuilder for a window size \<open>W\<close>:
  the call succeeds, there are as many Examples as embeddings, and every context has
  exactly \<open>W\<close> slots.
\<close>

definition builds_windows_of ::
  "('d, 'a::zero) torch \<Rightarrow> nat \<Rightarrow> ('d, 'a) tensor list \<Rightarrow> bool" where
  "builds_windows_of T W embedded_frames =
     (case prepare_data T embedded_frames of
        Inl _ \<Rightarrow> False
      | Inr Xy \<Rightarrow>
          tensor_len (fst Xy) = Some (length embedded_frames) \<and>
          tensor_len (snd Xy) = Some (length embedded_frames) \<and>
          list_all
            (\<lambda>i. case example_at Xy i of Inl _ \<Rightarrow> False | Inr ex \<Rightarrow> length (fst ex) = W)
            [0..<length embedded_frames])"

text \<open>
  The Example the specification describes for index \<open>i\<close> and window size \<open>W\<close>:
  slot \<open>k\<close> of the context is \<open>embeddings[i - (W - k)]\<close>, or the null embedding when
  that index is negative, and the target is \<open>embeddings[i]\<close>.
\<close>

definition spec_example ::
  "nat \<Rightarrow> ('d, 'a) tensor \<Rightarrow> ('d, 'a) tensor list \<Rightarrow> nat \<Rightarrow>
   ('d, 'a) tensor list \<times> ('d, 'a) tensor" where
  "spec_example W null_embedding embeddings i =
     (map (\<lambda>k. if int i - (int W - int k) < 0 then null_embedding
                else embeddings ! nat (int i - (int W - int k)))
        [0..<W],
      embeddings ! i)"

section \<open>FrameSampler: \<open>load_video_frames\<close>\<close>

text \<open>
  A Python number as the code can be given one for \<open>fps\<close>: an \<open>int\<close> or a
  \<open>float\<close>. Dividing a float by an int first converts the int to a float, which
  raises \<open>OverflowError\<close> when the int is too large.
\<close>

datatype pynum = PyInt int | PyFloat fval

definition to_float :: "pynum \<Rightarrow> error + fval" where
  "to_float b =
     (case b of
        PyFloat f \<Rightarrow> Inr f
      | PyInt n \<Rightarrow>
          (case to_double (of_int n) of
             Finite r \<Rightarrow> Inr (Finite r)
           | _ \<Rightarrow> Inl OverflowError))"

text \<open>IEEE division of two floats, the divisor not zero.\<close>

definition float_div :: "fval \<Rightarrow> fval \<Rightarrow> fval" where
  "float_div a b =
     (case a of
        NaN \<Rightarrow> NaN
      | Finite x \<Rightarrow>
          (case b of Finite y \<Rightarrow> to_double (x / y) | NaN \<Rightarrow> NaN | _ \<Rightarrow> Finite 0)
      | PosInf \<Rightarrow>
          (case b of Finite y \<Rightarrow> (if 0 < y then PosInf else NegInf) | _ \<Rightarrow> NaN)
      | NegInf \<Rightarrow>
          (case b of Finite y \<Rightarrow> (if 0 < y then NegInf else PosInf) | _ \<Rightarrow> NaN))"

text \<open>\<open>a / b\<close> for a float \<open>a\<close>.\<close>

definition py_truediv :: "fval \<Rightarrow> pynum \<Rightarrow> error + fval" where
  "py_truediv a b =
     (case to_float b of
        Inl e \<Rightarrow> Inl e
      | Inr fb \<Rightarrow> if fb = Finite 0 then Inl ZeroDivisionError else Inr (float_div a fb))"

text \<open>
  \<open>round(x)\<close> for a float \<open>x\<close>: the nearest \<open>int\<close>, a tie going to the even one;
  an infinity raises \<open>OverflowError\<close> and a NaN \<open>ValueError\<close>.
\<close>

definition py_round :: "fval \<Rightarrow> error + int" where
  "py_round x =
     (case x of
        Finite q \<Rightarrow> Inr (round_half_even q)
      | NaN \<Rightarrow> Inl ValueError
      | _ \<Rightarrow> Inl OverflowError)"

text \<open>
  What \<open>cv2.VideoCapture\<close> gives for a path: the value of \<open>CAP_PROP_FPS\<close>, a float
  (0 when the rate is unknown or the file could not be opened), and the frames that
  successive \<open>read()\<close> calls return before the first unsuccessful one.
\<close>

record 'f video =
  frame_rate :: fval
  frames :: "'f list"

text \<open>\<open>max(1, round(frame_rate / fps))\<close>.\<close>

definition frame_skip :: "fval \<Rightarrow> pynum \<Rightarrow> error + int" where
  "frame_skip rate fps =
     (case py_truediv rate fps of
        Inl e \<Rightarrow> Inl e
      | Inr q \<Rightarrow> (case py_round q of Inl e \<Rightarrow> Inl e | Inr n \<Rightarrow> Inr (max 1 n)))"

text \<open>
  The \<open>while success\<close> loop: \<open>stream\<close> holds the frames still to be read,
  \<open>cvt\<close> is the conversion \<open>Image.fromarray(cv2.cvtColor(frame, COLOR_BGR2RGB))\<close>.
\<close>

fun read_loop :: "('f \<Rightarrow> 'g) \<Rightarrow> int \<Rightarrow> int \<Rightarrow> 'f list \<Rightarrow> 'g list \<Rightarrow> 'g list" where
  "read_loop cvt skip count [] acc = acc"
| "read_loop cvt skip count (frame # stream) acc =
     read_loop cvt skip (count + 1) stream
       (if count mod skip = 0 then acc @ [cvt frame] else acc)"

definition load_video_frames ::
  "(string \<Rightarrow> 'f video) \<Rightarrow> ('f \<Rightarrow> 'g) \<Rightarrow> string \<Rightarrow> pynum \<Rightarrow> error + 'g list" where
  "load_video_frames VideoCapture cvt video_path fps =
     (let video = VideoCapture video_path in
      case frame_skip (frame_rate video) fps of
        Inl e \<Rightarrow> Inl e
      | Inr skip \<Rightarrow> Inr (read_loop cvt skip 0 (frames video) []))"

section \<open>Embedder and Dataset\<close>

definition get_frame_embeddings ::
  "'g list \<Rightarrow> ('g \<Rightarrow> ('d, 'a) tensor) \<Rightarrow> ('d, 'a) tensor list" where
  "get_frame_embeddings frms get_vec = map get_vec frms"

text \<open>
  The loop of \<open>load_and_process_videos\<close>. \<open>prepare_data\<close> returns the pair
  \<open>(X, y)\<close>, and \<open>dataset.extend\<close> of a pair appends its two components.
\<close>

fun process_videos ::
  "('d, 'a::zero) torch \<Rightarrow> (string \<Rightarrow> 'f video) \<Rightarrow> ('f \<Rightarrow> 'g) \<Rightarrow>
   ('g \<Rightarrow> ('d, 'a) tensor) \<Rightarrow> pynum \<Rightarrow> string list \<Rightarrow> ('d, 'a) tensor list \<Rightarrow>
   error + ('d, 'a) tensor list" where
  "process_videos T VideoCapture cvt get_vec fps [] dataset = Inr dataset"
| "process_videos T VideoCapture cvt get_vec fps (video_path # rest) dataset =
     (case load_video_frames VideoCapture cvt video_path fps of
        Inl e \<Rightarrow> Inl e
      | Inr frms \<Rightarrow>
          (case prepare_data T (get_frame_embeddings frms get_vec) of
             Inl e \<Rightarrow> Inl e
           | Inr Xy \<Rightarrow>
               process_videos T VideoCapture cvt get_vec fps rest
                 (dataset @ [fst Xy, snd Xy])))"

definition load_and_process_videos ::
  "('d, 'a::zero) torch \<Rightarrow> (string \<Rightarrow> 'f video) \<Rightarrow> ('f \<Rightarrow> 'g) \<Rightarrow>
   ('g \<Rightarrow> ('d, 'a) tensor) \<Rightarrow> pynum \<Rightarrow> string list \<Rightarrow> error + ('d, 'a) tensor list" where
  "load_and_process_videos T VideoCapture cvt get_vec fps video_paths =
     process_videos T VideoCapture cvt get_vec fps video_paths []"

text \<open>\<open>__len__\<close> and \<open>__getitem__\<close> on the stored list, with Python's list indexing.\<close>

definition dataset_len :: "'a list \<Rightarrow> int" where
  "dataset_len dataset = int (length dataset)"

definition dataset_getitem :: "'a list \<Rightarrow> int \<Rightarrow> error + 'a" where
  "dataset_getitem dataset idx =
     (let n = int (length dataset);
          j = (if idx < 0 then idx + n else idx)
      in if 0 \<le> j \<and> j < n then Inr (dataset ! nat j) else Inl IndexError)"

section \<open>CorpusIndex: \<open>load_video_paths\<close>\<close>

text \<open>
  A directory is the list of its entries in listing order, each entry a name and what
  it is; the file system maps a path to what is there, if anything.
\<close>

datatype node = File | Dir "(string \<times> node) list"

definition os_listdir :: "(string \<rightharpoonup> node) \<Rightarrow> string \<Rightarrow> error + string list" where
  "os_listdir fs path =
     (case fs path of
        None \<Rightarrow> Inl FileNotFoundError
      | Some File \<Rightarrow> Inl NotADirectoryError
      | Some (Dir entries) \<Rightarrow> Inr (map fst entries))"

definition endswith :: "string \<Rightarrow> string \<Rightarrow> bool" where
  "endswith s suffix =
     (length suffix \<le> length s \<and> drop (length s - length suffix) s = suffix)"

definition os_path_join :: "string \<Rightarrow> string \<Rightarrow> string" where
  "os_path_join a b =
     (if take 1 b = ''/'' then b
      else if a = [] \<or> endswith a ''/'' then a @ b
      else a @ ''/'' @ b)"

definition load_video_paths :: "(string \<rightharpoonup> node) \<Rightarrow> string \<Rightarrow> error + string list" where
  "load_video_paths fs training_path =
     (case os_listdir fs training_path of
        Inl e \<Rightarrow> Inl e
      | Inr names \<Rightarrow>
          Inr (map (os_path_join training_path) (filter (\<lambda>f. endswith f ''.mp4'') names)))"

section \<open>Facts about rounding\<close>

lemma pow2_pos [simp]: "(0::rat) < 2 powi n"
  by (simp add: zero_less_power_int)

lemma pow2_less_iff: "(2::rat) powi m < 2 powi n \<longleftrightarrow> m < n"
proof
  assume lt: "(2::rat) powi m < 2 powi n"
  show "m < n"
  proof (rule ccontr)
    assume "\<not> m < n"
    then have "(2::rat) powi n \<le> 2 powi m" by (intro power_int_increasing) auto
    with lt show False by simp
  qed
next
  assume "m < n"
  then show "(2::rat) powi m < 2 powi n" by (intro power_int_strict_increasing) auto
qed

lemma pow2_le_iff: "(2::rat) powi m \<le> 2 powi n \<longleftrightarrow> m \<le> n"
  using pow2_less_iff [of n m] by (auto simp: not_less [symmetric])

lemma pow2_diff: "(2::rat) powi (m - n) = 2 powi m / 2 powi n"
  by (simp add: power_int_diff)

lemma pow2_add: "(2::rat) powi (m + n) = 2 powi m * 2 powi n"
  by (simp add: power_int_add)

lemma pow2_mult_eq: "m + n = k \<Longrightarrow> (2::rat) powi m * 2 powi n = 2 powi k"
  by (auto simp: pow2_add)

lemma pow2_div_eq: "m - n = k \<Longrightarrow> (2::rat) powi m / 2 powi n = 2 powi k"
  by (auto simp: pow2_diff)

lemma powi_bitlen_bounds:
  assumes "0 < n"
  shows "(2::rat) powi (bitlen n - 1) \<le> of_int n" and "of_int n < (2::rat) powi bitlen n"
proof -
  from bitlen_bounds[OF assms]
  have lo: "2 ^ nat (bitlen n - 1) \<le> n" and hi: "n < 2 ^ nat (bitlen n)" by auto
  have b1: "1 \<le> bitlen n" using assms by (auto simp: bitlen_alt_def)
  have "(2::rat) powi (bitlen n - 1) = 2 ^ nat (bitlen n - 1)"
    using b1 by (simp add: power_int_nonneg_exp)
  also have "\<dots> = of_int (2 ^ nat (bitlen n - 1))" by simp
  also have "\<dots> \<le> of_int n" using lo by (simp only: of_int_le_iff)
  finally show "(2::rat) powi (bitlen n - 1) \<le> of_int n" .
  have "(of_int n :: rat) < of_int (2 ^ nat (bitlen n))" using hi by (simp only: of_int_less_iff)
  also have "\<dots> = 2 ^ nat (bitlen n)" by simp
  also have "\<dots> = (2::rat) powi bitlen n"
    using b1 by (simp add: power_int_nonneg_exp)
  finally show "of_int n < (2::rat) powi bitlen n" .
qed

lemma floor_log2_bounds:
  assumes "0 < a"
  shows "2 powi (floor_log2 a) \<le> a" and "a < 2 powi (floor_log2 a + 1)"
proof -
  obtain n d where nd: "quotient_of a = (n, d)" by (cases "quotient_of a")
  have d: "0 < d" using nd by (rule quotient_of_denom_pos)
  have a: "a = of_int n / of_int d" using nd by (rule quotient_of_div)
  have n: "0 < n" using assms d unfolding a by (simp add: zero_less_divide_iff)
  let ?e0 = "bitlen n - bitlen d"
  have dr: "(0::rat) < of_int d" using d by simp
  have "a < 2 powi bitlen n / of_int d"
    unfolding a using powi_bitlen_bounds(2)[OF n] dr by (simp add: divide_strict_right_mono)
  also have "\<dots> \<le> 2 powi bitlen n / 2 powi (bitlen d - 1)"
    using powi_bitlen_bounds(1)[OF d] by (intro divide_left_mono) (auto intro!: mult_pos_pos dr)
  also have "\<dots> = 2 powi (?e0 + 1)"
    by (simp add: pow2_diff pow2_add)
  finally have hi: "a < 2 powi (?e0 + 1)" .
  have "(2::rat) powi (?e0 - 1) = 2 powi (bitlen n - 1) / 2 powi bitlen d"
    by (simp add: pow2_diff)
  also have "\<dots> \<le> of_int n / 2 powi bitlen d"
    using powi_bitlen_bounds(1)[OF n] by (simp add: divide_right_mono)
  also have "\<dots> < of_int n / of_int d"
    using powi_bitlen_bounds(2)[OF d] n dr by (intro divide_strict_left_mono) (auto intro!: mult_pos_pos)
  finally have lo: "2 powi (?e0 - 1) < a" unfolding a .
  have fl: "floor_log2 a = (if 2 powi ?e0 \<le> a then ?e0 else ?e0 - 1)"
    by (simp add: floor_log2_def nd Let_def)
  show "2 powi (floor_log2 a) \<le> a"
    using lo by (simp add: fl)
  show "a < 2 powi (floor_log2 a + 1)"
    using hi by (simp add: fl)
qed

lemma floor_log2_eqI:
  assumes "2 powi e \<le> a" and "a < 2 powi (e + 1)"
  shows "floor_log2 a = e"
proof -
  have pos: "0 < a"
    using pow2_pos [of e] assms(1) by (rule less_le_trans)
  from floor_log2_bounds[OF pos]
  have lo: "2 powi (floor_log2 a) \<le> a" and hi: "a < 2 powi (floor_log2 a + 1)" .
  have "(2::rat) powi e < 2 powi (floor_log2 a + 1)"
    using assms(1) hi by (rule le_less_trans)
  then have 1: "e < floor_log2 a + 1" by (simp only: pow2_less_iff)
  have "(2::rat) powi (floor_log2 a) < 2 powi (e + 1)"
    using lo assms(2) by (rule le_less_trans)
  then have 2: "floor_log2 a < e + 1" by (simp only: pow2_less_iff)
  from 1 2 show ?thesis by simp
qed


lemma round_half_even_cases:
  "round_half_even z = \<lfloor>z\<rfloor> \<or> round_half_even z = \<lfloor>z\<rfloor> + 1"
  by (simp add: round_half_even_def Let_def)

lemma round_half_even_ge: "of_int k \<le> z \<Longrightarrow> k \<le> round_half_even z"
proof -
  assume "of_int k \<le> z"
  then have "k \<le> \<lfloor>z\<rfloor>" by (simp add: le_floor_iff)
  then show ?thesis using round_half_even_cases [of z] by auto
qed

lemma round_half_even_of_int [simp]: "round_half_even (of_int k) = k"
  by (simp add: round_half_even_def)

lemma round_half_even_zero [simp]: "round_half_even 0 = 0"
  by (simp add: round_half_even_def)

lemma round_half_even_one [simp]: "round_half_even 1 = 1"
  by (simp add: round_half_even_def)

lemma round_half_even_numeral [simp]: "round_half_even (numeral n) = numeral n"
  using round_half_even_of_int [of "numeral n"] by simp

lemma round_half_even_le: "z \<le> of_int k \<Longrightarrow> round_half_even z \<le> k"
proof -
  assume le: "z \<le> of_int k"
  show ?thesis
  proof (cases "z = of_int k")
    case True
    then show ?thesis by simp
  next
    case False
    with le have "z < of_int k" by simp
    then have "\<lfloor>z\<rfloor> < k" by (simp add: floor_less_iff)
    then show ?thesis using round_half_even_cases [of z] by auto
  qed
qed


lemma ieee_mag_upper:
  assumes "0 < a"
  shows "ieee_mag p emin a \<le> 2 powi (max (floor_log2 a) emin + 1)"
proof -
  let ?e = "max (floor_log2 a) emin"
  let ?ulp = "(2::rat) powi (?e - (int p - 1))"
  have "a < 2 powi (floor_log2 a + 1)" using assms by (rule floor_log2_bounds)
  also have "\<dots> \<le> 2 powi (?e + 1)" by (simp add: pow2_le_iff)
  finally have "a / ?ulp \<le> 2 powi (?e + 1) / ?ulp"
    by (simp add: divide_right_mono)
  also have "\<dots> = 2 powi (int p)" by (rule pow2_div_eq) simp
  also have "\<dots> = of_int (2 ^ p)" by simp
  finally have "round_half_even (a / ?ulp) \<le> 2 ^ p" by (rule round_half_even_le)
  then have "(of_int (round_half_even (a / ?ulp)) :: rat) \<le> of_int (2 ^ p)"
    by (simp only: of_int_le_iff)
  then have "of_int (round_half_even (a / ?ulp)) * ?ulp \<le> of_int (2 ^ p) * ?ulp"
    by (intro mult_right_mono) auto
  also have "of_int (2 ^ p) * ?ulp = 2 powi (int p) * ?ulp" by simp
  also have "\<dots> = 2 powi (?e + 1)" by (rule pow2_mult_eq) simp
  finally show ?thesis by (simp add: ieee_mag_def Let_def)
qed

lemma ieee_mag_lower:
  assumes "0 < a" and "emin \<le> floor_log2 a" and "0 < p"
  shows "2 powi (floor_log2 a) \<le> ieee_mag p emin a"
proof -
  let ?e = "floor_log2 a"
  let ?ulp = "(2::rat) powi (?e - (int p - 1))"
  have e: "max ?e emin = ?e" using assms(2) by simp
  have p1: "(of_int (2 ^ (p - 1)) :: rat) = 2 powi (int p - 1)"
    using assms(3) by (simp add: power_int_nonneg_exp nat_diff_distrib)
  also have "\<dots> = 2 powi ?e / ?ulp" by (rule pow2_div_eq [symmetric]) simp
  also have "\<dots> \<le> a / ?ulp"
    using floor_log2_bounds(1)[OF assms(1)] by (simp add: divide_right_mono)
  finally have "2 ^ (p - 1) \<le> round_half_even (a / ?ulp)" by (rule round_half_even_ge)
  then have "(of_int (2 ^ (p - 1)) :: rat) \<le> of_int (round_half_even (a / ?ulp))"
    by (simp only: of_int_le_iff)
  then have le: "of_int (2 ^ (p - 1)) * ?ulp \<le> of_int (round_half_even (a / ?ulp)) * ?ulp"
    by (intro mult_right_mono) auto
  have "2 powi ?e = 2 powi (int p - 1) * ?ulp" by (rule pow2_mult_eq [symmetric]) simp
  also have "\<dots> = of_int (2 ^ (p - 1)) * ?ulp" by (simp only: p1)
  also note le
  also have "of_int (round_half_even (a / ?ulp)) * ?ulp = ieee_mag p emin a"
    by (simp only: ieee_mag_def Let_def e)
  finally show ?thesis .
qed

lemma floor_log2_less:
  assumes "0 < a" and "a < 2 powi n"
  shows "floor_log2 a < n"
proof -
  have "(2::rat) powi (floor_log2 a) < 2 powi n"
    using floor_log2_bounds(1)[OF assms(1)] assms(2) by (rule le_less_trans)
  then show ?thesis by (simp only: pow2_less_iff)
qed

lemma floor_log2_ge:
  assumes "2 powi n \<le> a"
  shows "n \<le> floor_log2 a"
proof -
  have pos: "0 < a" using pow2_pos [of n] assms by (rule less_le_trans)
  have "(2::rat) powi n < 2 powi (floor_log2 a + 1)"
    using assms floor_log2_bounds(2)[OF pos] by (rule le_less_trans)
  then have "n < floor_log2 a + 1" by (simp only: pow2_less_iff)
  then show ?thesis by simp
qed

lemma ieee_round_finite:
  assumes "\<bar>q\<bar> < 2 powi emax" and "emin < emax"
  shows "\<exists>r. ieee_round p emin emax q = Finite r"
proof (cases "q = 0")
  case True
  then show ?thesis by (simp add: ieee_round_def)
next
  case False
  then have pos: "0 < \<bar>q\<bar>" by simp
  have "floor_log2 \<bar>q\<bar> < emax" using pos assms(1) by (rule floor_log2_less)
  then have "max (floor_log2 \<bar>q\<bar>) emin + 1 \<le> emax" using assms(2) by simp
  then have "(2::rat) powi (max (floor_log2 \<bar>q\<bar>) emin + 1) \<le> 2 powi emax"
    by (simp only: pow2_le_iff)
  with ieee_mag_upper[OF pos, of p emin]
  have "ieee_mag p emin \<bar>q\<bar> \<le> 2 powi emax" by (rule order_trans)
  moreover have "(2::rat) powi emax < 2 powi (emax + 1)" by (simp add: pow2_less_iff)
  ultimately have "\<not> 2 powi (emax + 1) \<le> ieee_mag p emin \<bar>q\<bar>" by simp
  then show ?thesis using False by (simp add: ieee_round_def Let_def)
qed

lemma ieee_round_overflow:
  assumes "2 powi (emax + 1) \<le> \<bar>q\<bar>" and "emin \<le> emax + 1" and "0 < p"
  shows "ieee_round p emin emax q = (if 0 < q then PosInf else NegInf)"
proof -
  have pos: "0 < \<bar>q\<bar>" using pow2_pos [of "emax + 1"] assms(1) by (rule less_le_trans)
  then have nz: "q \<noteq> 0" by simp
  have fl: "emax + 1 \<le> floor_log2 \<bar>q\<bar>" using assms(1) by (rule floor_log2_ge)
  then have "emin \<le> floor_log2 \<bar>q\<bar>" using assms(2) by simp
  with pos have "2 powi (floor_log2 \<bar>q\<bar>) \<le> ieee_mag p emin \<bar>q\<bar>"
    using assms(3) by (rule ieee_mag_lower)
  moreover have "(2::rat) powi (emax + 1) \<le> 2 powi (floor_log2 \<bar>q\<bar>)"
    using fl by (simp only: pow2_le_iff)
  ultimately have "2 powi (emax + 1) \<le> ieee_mag p emin \<bar>q\<bar>" by simp
  then show ?thesis using nz by (simp add: ieee_round_def Let_def)
qed

lemma ieee_round_ge_one:
  assumes "1 \<le> \<bar>q\<bar>" and "\<bar>q\<bar> < 2 powi emax" and "emin \<le> 0" and "emin < emax" and "0 < p"
  shows "\<exists>r. ieee_round p emin emax q = Finite r \<and> 1 \<le> \<bar>r\<bar> \<and> (0 < q \<longrightarrow> 0 < r)"
proof -
  have pos: "0 < \<bar>q\<bar>" and nz: "q \<noteq> 0" using assms(1) by auto
  obtain r where r: "ieee_round p emin emax q = Finite r"
    using ieee_round_finite [of q emax emin p] assms by auto
  have "(2::rat) powi 0 \<le> \<bar>q\<bar>" using assms(1) by simp
  then have fl: "0 \<le> floor_log2 \<bar>q\<bar>" by (rule floor_log2_ge)
  then have "emin \<le> floor_log2 \<bar>q\<bar>" using assms(3) by simp
  with pos have "2 powi (floor_log2 \<bar>q\<bar>) \<le> ieee_mag p emin \<bar>q\<bar>"
    using assms(5) by (rule ieee_mag_lower)
  moreover have "(2::rat) powi 0 \<le> 2 powi (floor_log2 \<bar>q\<bar>)"
    using fl by (simp only: pow2_le_iff)
  ultimately have m: "1 \<le> ieee_mag p emin \<bar>q\<bar>" by simp
  have "r = (if 0 < q then ieee_mag p emin \<bar>q\<bar> else - ieee_mag p emin \<bar>q\<bar>)"
    using r nz by (simp add: ieee_round_def Let_def split: if_splits)
  with m have "1 \<le> \<bar>r\<bar> \<and> (0 < q \<longrightarrow> 0 < r)" by auto
  with r show ?thesis by blast
qed


lemma round_half_even_tie:
  assumes "z = of_int n + 1 / 2"
  shows "round_half_even z = (if even n then n else n + 1)"
proof -
  have "\<lfloor>z\<rfloor> = n" unfolding assms by (intro floor_unique) auto
  then show ?thesis by (simp add: round_half_even_def Let_def assms)
qed

subsection \<open>Particular roundings\<close>

lemma to_double_8: "to_double 8 = Finite 8"
proof -
  have "floor_log2 8 = 3" by (rule floor_log2_eqI) simp_all
  then show ?thesis
    by (simp add: to_double_def ieee_round_def ieee_mag_def Let_def)
qed


lemma to_double_1: "to_double 1 = Finite 1"
proof -
  have "floor_log2 1 = 0" by (rule floor_log2_eqI) simp_all
  then show ?thesis
    by (simp add: to_double_def ieee_round_def ieee_mag_def Let_def)
qed


lemma to_single_16777217: "to_single 16777217 = Finite 16777216"
proof -
  have "floor_log2 16777217 = 24" by (rule floor_log2_eqI) simp_all
  moreover have "round_half_even (16777217 / 2) = 8388608"
    using round_half_even_tie [of "16777217 / 2" 8388608] by simp
  ultimately show ?thesis
    by (simp add: to_single_def ieee_round_def ieee_mag_def Let_def)
qed

section \<open>Facts about the frame loop and the stride\<close>

lemma read_loop_eq:
  "read_loop cvt skip count stream acc =
     acc @ map (\<lambda>i. cvt (stream ! i))
             (filter (\<lambda>i. (count + int i) mod skip = 0) [0..<length stream])"
proof (induction stream arbitrary: count acc)
  case Nil
  then show ?case by simp
next
  case (Cons frame stream)
  have upt: "[0..<length (frame # stream)] = 0 # map Suc [0..<length stream]"
    by (simp add: upt_conv_Cons map_Suc_upt del: upt_Suc)
  have shift: "map (\<lambda>i. cvt ((frame # stream) ! i))
          (filter (\<lambda>i. (count + int i) mod skip = 0) (map Suc [0..<length stream]))
        = map (\<lambda>i. cvt (stream ! i))
          (filter (\<lambda>i. (count + 1 + int i) mod skip = 0) [0..<length stream])"
    by (simp add: filter_map comp_def ac_simps)
  have "read_loop cvt skip count (frame # stream) acc =
      (if count mod skip = 0 then acc @ [cvt frame] else acc) @
        map (\<lambda>i. cvt (stream ! i))
          (filter (\<lambda>i. (count + 1 + int i) mod skip = 0) [0..<length stream])"
    by (simp only: read_loop.simps Cons.IH)
  also have "\<dots> = acc @ map (\<lambda>i. cvt ((frame # stream) ! i))
      (filter (\<lambda>i. (count + int i) mod skip = 0) (0 # map Suc [0..<length stream]))"
    unfolding shift [symmetric] by simp
  finally show ?case by (simp only: upt)
qed

lemma load_video_frames_eq:
  "load_video_frames VideoCapture cvt video_path fps =
     (case frame_skip (frame_rate (VideoCapture video_path)) fps of
        Inl e \<Rightarrow> Inl e
      | Inr stride \<Rightarrow>
          Inr (map (\<lambda>i. cvt (frames (VideoCapture video_path) ! i))
                 (filter (\<lambda>i. int i mod stride = 0)
                    [0..<length (frames (VideoCapture video_path))])))"
  by (simp add: load_video_frames_def read_loop_eq Let_def split: sum.splits)

lemma load_video_frames_first:
  assumes "frames (VideoCapture video_path) \<noteq> []"
    and "frame_skip (frame_rate (VideoCapture video_path)) fps = Inr stride"
  shows "\<exists>rest. load_video_frames VideoCapture cvt video_path fps =
           Inr (cvt (hd (frames (VideoCapture video_path))) # rest)"
proof -
  obtain frame stream where fs: "frames (VideoCapture video_path) = frame # stream"
    using assms(1) by (cases "frames (VideoCapture video_path)") auto
  have "read_loop cvt stride 0 (frame # stream) [] = cvt frame #
      map (\<lambda>i. cvt (stream ! i))
        (filter (\<lambda>i. (1 + int i) mod stride = 0) [0..<length stream])"
    by (simp add: read_loop_eq [of cvt stride 1 stream])
  then show ?thesis
    by (simp add: load_video_frames_def assms(2) fs)
qed

lemma load_video_frames_all:
  assumes "frame_skip (frame_rate (VideoCapture video_path)) fps = Inr 1"
  shows "load_video_frames VideoCapture cvt video_path fps =
           Inr (map cvt (frames (VideoCapture video_path)))"
proof -
  have "map (\<lambda>i. cvt (frames (VideoCapture video_path) ! i))
          [0..<length (frames (VideoCapture video_path))]
        = map cvt (map (\<lambda>i. frames (VideoCapture video_path) ! i)
            [0..<length (frames (VideoCapture video_path))])"
    by (simp add: comp_def)
  then have "map (\<lambda>i. cvt (frames (VideoCapture video_path) ! i))
          [0..<length (frames (VideoCapture video_path))]
        = map cvt (frames (VideoCapture video_path))"
    by (simp only: map_nth)
  then show ?thesis
    by (simp add: load_video_frames_eq assms)
qed

lemma frame_skip_Finite:
  assumes "py_truediv rate fps = Inr (Finite q)"
  shows "frame_skip rate fps = Inr (max 1 (round_half_even q))"
  by (simp add: frame_skip_def assms py_round_def)

lemma to_double_finite: "\<bar>q\<bar> < 2 ^ 1023 \<Longrightarrow> \<exists>r. to_double q = Finite r"
  unfolding to_double_def by (rule ieee_round_finite) simp_all

lemma to_double_ge_one:
  assumes "1 \<le> \<bar>q\<bar>" and "\<bar>q\<bar> < 2 ^ 1023"
  shows "\<exists>r. to_double q = Finite r \<and> 1 \<le> \<bar>r\<bar> \<and> (0 < q \<longrightarrow> 0 < r)"
  unfolding to_double_def using assms by (intro ieee_round_ge_one) simp_all

lemma to_double_overflow:
  assumes "2 ^ 1024 \<le> \<bar>q\<bar>"
  shows "to_double q = (if 0 < q then PosInf else NegInf)"
  unfolding to_double_def using assms by (intro ieee_round_overflow) simp_all

lemma to_float_int:
  assumes "n \<noteq> 0" and "\<bar>n\<bar> < 2 ^ 1023"
  shows "\<exists>y. to_float (PyInt n) = Inr (Finite y) \<and> 1 \<le> \<bar>y\<bar> \<and> (0 < n \<longrightarrow> 0 < y)"
proof -
  have "1 \<le> \<bar>n\<bar>" using assms(1) by simp
  then have "(of_int 1 :: rat) \<le> of_int \<bar>n\<bar>" by (simp only: of_int_le_iff)
  then have 1: "1 \<le> \<bar>of_int n :: rat\<bar>" by simp
  have "(of_int \<bar>n\<bar> :: rat) < of_int (2 ^ 1023)" using assms(2) by (simp only: of_int_less_iff)
  then have 2: "\<bar>of_int n :: rat\<bar> < 2 ^ 1023" by simp
  from to_double_ge_one [OF 1 2] obtain r where
    "to_double (of_int n) = Finite r" "1 \<le> \<bar>r\<bar>" "0 < (of_int n :: rat) \<longrightarrow> 0 < r"
    by blast
  then show ?thesis by (auto simp: to_float_def)
qed

lemma to_float_int_overflow:
  assumes "2 ^ 1024 \<le> \<bar>n\<bar>"
  shows "to_float (PyInt n) = Inl OverflowError"
proof -
  have "(of_int (2 ^ 1024) :: rat) \<le> of_int \<bar>n\<bar>" using assms by (simp only: of_int_le_iff)
  then have "2 ^ 1024 \<le> \<bar>of_int n :: rat\<bar>" by simp
  then have "to_double (of_int n) = (if 0 < (of_int n :: rat) then PosInf else NegInf)"
    by (rule to_double_overflow)
  then show ?thesis by (simp add: to_float_def)
qed

lemma frame_skip_zero_rate:
  "frame_skip (Finite 0) fps =
     (case to_float fps of
        Inl e \<Rightarrow> Inl e
      | Inr f \<Rightarrow>
          if f = Finite 0 then Inl ZeroDivisionError
          else if f = NaN then Inl ValueError
          else Inr 1)"
proof (cases "to_float fps")
  case (Inl e)
  then show ?thesis by (simp add: frame_skip_def py_truediv_def)
next
  case (Inr f)
  have z: "to_double 0 = Finite 0" by (simp add: to_double_def ieee_round_def)
  show ?thesis
    by (cases f)
      (simp_all add: Inr frame_skip_def py_truediv_def float_div_def py_round_def z)
qed

lemma frame_skip_finite_quotient:
  assumes "to_float fps = Inr (Finite y)" and "y \<noteq> 0" and "\<bar>x / y\<bar> < 2 ^ 1023"
  shows "\<exists>stride. frame_skip (Finite x) fps = Inr stride"
proof -
  obtain r where "to_double (x / y) = Finite r"
    using to_double_finite [OF assms(3)] by blast
  then have "py_truediv (Finite x) fps = Inr (Finite r)"
    using assms(1,2) by (simp add: py_truediv_def float_div_def)
  then show ?thesis by (simp add: frame_skip_Finite)
qed

section \<open>Facts about stacking and slicing\<close>

lemma result_dtype_same:
  "ts \<noteq> [] \<Longrightarrow> \<forall>t\<in>set ts. dtype t = d \<Longrightarrow> result_dtype T ts = d"
  by (cases ts) (auto simp: result_dtype_def list_all_iff)

lemma to_dtype_same: "dtype t = d \<Longrightarrow> to_dtype T d t = data t"
  by (simp add: to_dtype_def)

lemma length_to_dtype [simp]: "length (to_dtype T d t) = length (data t)"
  by (simp add: to_dtype_def)

lemma torch_stack_ok:
  "ts \<noteq> [] \<Longrightarrow> \<forall>t\<in>set ts. shape t = s \<Longrightarrow>
   torch_stack T ts =
     Inr (Tensor (result_dtype T ts) (length ts # s)
            (concat (map (to_dtype T (result_dtype T ts)) ts)))"
  by (cases ts) (auto simp: torch_stack_def list_ex_iff)

lemma torch_stack_same:
  assumes "ts \<noteq> []" and "\<forall>t\<in>set ts. shape t = s" and "\<forall>t\<in>set ts. dtype t = d"
  shows "torch_stack T ts = Inr (Tensor d (length ts # s) (concat (map data ts)))"
proof -
  have m: "map (to_dtype T d) ts = map data ts"
    using assms(3) by (intro map_cong) (auto simp: to_dtype_same)
  show ?thesis
    using torch_stack_ok [OF assms(1,2), of T] result_dtype_same [OF assms(1,3), of T]
    by (simp only: m)
qed

lemma torch_stack_error:
  "torch_stack T ts = Inl e \<Longrightarrow> ts \<noteq> [] \<Longrightarrow> e = RuntimeError_stack_size"
  by (cases ts) (auto simp: torch_stack_def split: if_splits)

lemma torch_stack_mismatch:
  "t \<in> set ts \<Longrightarrow> t' \<in> set ts \<Longrightarrow> shape t \<noteq> shape t' \<Longrightarrow>
   torch_stack T ts = Inl RuntimeError_stack_size"
proof -
  assume t: "t \<in> set ts" and t': "t' \<in> set ts" and ne: "shape t \<noteq> shape t'"
  then obtain t0 rest where ts: "ts = t0 # rest" by (cases ts) auto
  have "shape t \<noteq> shape t0 \<or> shape t' \<noteq> shape t0" using ne by auto
  then have "list_ex (\<lambda>u. shape u \<noteq> shape t0) ts"
    using t t' unfolding list_ex_iff by blast
  then show ?thesis by (simp add: torch_stack_def ts)
qed

lemma stack_all_ok:
  "\<forall>x\<in>set xs. x \<noteq> [] \<and> (\<forall>t\<in>set x. shape t = s) \<Longrightarrow>
   stack_all T xs =
     Inr (map (\<lambda>x. Tensor (result_dtype T x) (length x # s)
                      (concat (map (to_dtype T (result_dtype T x)) x))) xs)"
proof (induction xs)
  case Nil
  then show ?case by simp
next
  case (Cons x xs)
  have "torch_stack T x =
      Inr (Tensor (result_dtype T x) (length x # s)
             (concat (map (to_dtype T (result_dtype T x)) x)))"
    using Cons.prems by (intro torch_stack_ok) auto
  moreover have "stack_all T xs =
      Inr (map (\<lambda>x. Tensor (result_dtype T x) (length x # s)
                       (concat (map (to_dtype T (result_dtype T x)) x))) xs)"
    using Cons by simp
  ultimately show ?case by simp
qed

lemma stack_all_same:
  "\<forall>x\<in>set xs. x \<noteq> [] \<and> (\<forall>t\<in>set x. shape t = s \<and> dtype t = d) \<Longrightarrow>
   stack_all T xs = Inr (map (\<lambda>x. Tensor d (length x # s) (concat (map data x))) xs)"
proof (induction xs)
  case Nil
  then show ?case by simp
next
  case (Cons x xs)
  have "torch_stack T x = Inr (Tensor d (length x # s) (concat (map data x)))"
    using Cons.prems by (intro torch_stack_same) auto
  moreover have "stack_all T xs =
      Inr (map (\<lambda>x. Tensor d (length x # s) (concat (map data x))) xs)"
    using Cons by simp
  ultimately show ?case by simp
qed

lemma stack_all_error:
  "stack_all T xs = Inl e \<Longrightarrow> \<forall>x\<in>set xs. x \<noteq> [] \<Longrightarrow> e = RuntimeError_stack_size"
  by (induction xs) (auto split: sum.splits dest: torch_stack_error)

lemma stack_all_length: "stack_all T xs = Inr ts \<Longrightarrow> length ts = length xs"
  by (induction xs arbitrary: ts) (auto split: sum.splits)

lemma concat_block:
  "\<forall>x\<in>set xss. length x = m \<Longrightarrow> i < length xss \<Longrightarrow>
   take m (drop (i * m) (concat xss)) = xss ! i"
proof (induction xss arbitrary: i)
  case Nil
  then show ?case by simp
next
  case (Cons x xss)
  show ?case
  proof (cases i)
    case 0
    with Cons.prems show ?thesis by simp
  next
    case (Suc j)
    with Cons show ?thesis by simp
  qed
qed

lemma length_context_row: "length (context_row null_frame embs i) = 3"
  by (simp add: context_row_def)

lemma context_row_shapes:
  assumes "\<forall>e\<in>set embs. shape e = s" and "i < length embs"
  shows "\<forall>t\<in>set (context_row (torch_zeros T s) embs i). shape t = s"
proof -
  have "\<forall>j\<le>i. shape (embs ! j) = s"
    using assms by (simp add: all_set_conv_all_nth)
  then show ?thesis
    by (simp add: context_row_def torch_zeros_def)
qed

lemma context_row_dtypes:
  assumes "\<forall>e\<in>set embs. dtype e = default_dtype T" and "i < length embs"
  shows "\<forall>t\<in>set (context_row (torch_zeros T s) embs i). dtype t = default_dtype T"
proof -
  have "\<forall>j\<le>i. dtype (embs ! j) = default_dtype T"
    using assms by (simp add: all_set_conv_all_nth)
  then show ?thesis
    by (simp add: context_row_def torch_zeros_def)
qed

lemma prepare_data_unfold:
  assumes "embs \<noteq> []"
  shows "prepare_data T embs =
      (case stack_all T (map (context_row (torch_zeros T (shape (hd embs))) embs)
                           [0..<length embs]) of
         Inl e \<Rightarrow> Inl e
       | Inr rows \<Rightarrow>
           (case torch_stack T rows of
              Inl e \<Rightarrow> Inl e
            | Inr Xt \<Rightarrow>
                (case torch_stack T embs of Inl e \<Rightarrow> Inl e | Inr yt \<Rightarrow> Inr (Xt, yt))))"
proof -
  obtain e0 rest where embs: "embs = e0 # rest" using assms by (cases embs) auto
  show ?thesis
    unfolding prepare_data_def embs Let_def list.case list.sel map_nth ..
qed

text \<open>Whatever the dtypes, embeddings of one shape give a result of the expected shapes.\<close>

lemma prepare_data_shapes:
  assumes ne: "embs \<noteq> []" and sh: "\<forall>e\<in>set embs. shape e = s"
  shows "\<exists>X y. prepare_data T embs = Inr (X, y) \<and>
           shape X = length embs # 3 # s \<and> shape y = length embs # s"
proof -
  have s0: "shape (hd embs) = s" using sh ne by simp
  let ?X = "map (context_row (torch_zeros T s) embs) [0..<length embs]"
  let ?stk = "\<lambda>x. Tensor (result_dtype T x) (length x # s)
                      (concat (map (to_dtype T (result_dtype T x)) x))"
  have "\<forall>x\<in>set ?X. x \<noteq> [] \<and> (\<forall>t\<in>set x. shape t = s)"
    using context_row_shapes[OF sh] by (auto simp: context_row_def)
  then have sa: "stack_all T ?X = Inr (map ?stk ?X)"
    by (rule stack_all_ok)
  let ?rows = "map ?stk ?X"
  have "?rows \<noteq> []" using ne by simp
  moreover have "\<forall>t\<in>set ?rows. shape t = 3 # s" by (auto simp: context_row_def)
  ultimately have st: "torch_stack T ?rows =
      Inr (Tensor (result_dtype T ?rows) (length ?rows # 3 # s)
             (concat (map (to_dtype T (result_dtype T ?rows)) ?rows)))"
    by (rule torch_stack_ok)
  have sy: "torch_stack T embs =
      Inr (Tensor (result_dtype T embs) (length embs # s)
             (concat (map (to_dtype T (result_dtype T embs)) embs)))"
    using ne sh by (rule torch_stack_ok)
  have "prepare_data T embs =
      Inr (Tensor (result_dtype T ?rows) (length ?rows # 3 # s)
             (concat (map (to_dtype T (result_dtype T ?rows)) ?rows)),
           Tensor (result_dtype T embs) (length embs # s)
             (concat (map (to_dtype T (result_dtype T embs)) embs)))"
    unfolding prepare_data_unfold[OF ne] s0 by (simp only: sa st sy sum.case)
  then show ?thesis by simp
qed

text \<open>Embeddings of one shape and of the default dtype are copied unchanged.\<close>

lemma prepare_data_same:
  assumes ne: "embs \<noteq> []" and sh: "\<forall>e\<in>set embs. shape e = s"
    and dt: "\<forall>e\<in>set embs. dtype e = default_dtype T"
  shows "prepare_data T embs =
    Inr (Tensor (default_dtype T) (length embs # 3 # s)
           (concat (map (\<lambda>i. concat (map data (context_row (torch_zeros T s) embs i)))
              [0..<length embs])),
         Tensor (default_dtype T) (length embs # s) (concat (map data embs)))"
proof -
  let ?d = "default_dtype T"
  have s0: "shape (hd embs) = s" using sh ne by simp
  let ?X = "map (context_row (torch_zeros T s) embs) [0..<length embs]"
  have "\<forall>x\<in>set ?X. x \<noteq> [] \<and> (\<forall>t\<in>set x. shape t = s \<and> dtype t = ?d)"
    using context_row_shapes[OF sh] context_row_dtypes[OF dt] by (auto simp: context_row_def)
  then have sa: "stack_all T ?X =
      Inr (map (\<lambda>x. Tensor ?d (length x # s) (concat (map data x))) ?X)"
    by (rule stack_all_same)
  let ?rows = "map (\<lambda>x. Tensor ?d (length x # s) (concat (map data x))) ?X"
  have "?rows \<noteq> []" using ne by simp
  moreover have "\<forall>t\<in>set ?rows. shape t = 3 # s" by (auto simp: context_row_def)
  moreover have "\<forall>t\<in>set ?rows. dtype t = ?d" by auto
  ultimately have st: "torch_stack T ?rows =
      Inr (Tensor ?d (length ?rows # 3 # s) (concat (map data ?rows)))"
    by (rule torch_stack_same)
  have sy: "torch_stack T embs = Inr (Tensor ?d (length embs # s) (concat (map data embs)))"
    using ne sh dt by (rule torch_stack_same)
  have "prepare_data T embs = Inr (Tensor ?d (length ?rows # 3 # s) (concat (map data ?rows)),
      Tensor ?d (length embs # s) (concat (map data embs)))"
    unfolding prepare_data_unfold[OF ne] s0 by (simp only: sa st sy sum.case)
  then show ?thesis by (simp add: comp_def)
qed

lemma prepare_data_mismatch:
  assumes e: "e \<in> set embs" and ne: "shape e \<noteq> shape (hd embs)"
  shows "prepare_data T embs = Inl RuntimeError_stack_size"
proof -
  have nonempty: "embs \<noteq> []" using e by auto
  let ?X = "map (context_row (torch_zeros T (shape (hd embs))) embs) [0..<length embs]"
  have rows_ne: "\<forall>x\<in>set ?X. x \<noteq> []" by (simp add: context_row_def)
  have y: "torch_stack T embs = Inl RuntimeError_stack_size"
    using e nonempty ne by (intro torch_stack_mismatch[of e embs "hd embs"]) auto
  show ?thesis
  proof (cases "stack_all T ?X")
    case (Inl err)
    then have "err = RuntimeError_stack_size" using rows_ne by (rule stack_all_error)
    with Inl show ?thesis by (simp add: prepare_data_unfold[OF nonempty])
  next
    case (Inr rows)
    then have "length rows = length ?X" by (rule stack_all_length)
    then have rne: "rows \<noteq> []" using nonempty by auto
    show ?thesis
    proof (cases "torch_stack T rows")
      case (Inl err)
      then have "err = RuntimeError_stack_size" using rne by (rule torch_stack_error)
      with Inl Inr show ?thesis by (simp add: prepare_data_unfold[OF nonempty])
    next
      case (Inr Xt)
      with \<open>stack_all T ?X = Inr rows\<close> y show ?thesis
        by (simp add: prepare_data_unfold[OF nonempty])
    qed
  qed
qed

lemma numel_Cons: "numel (n # s) = n * numel s"
  by (simp add: numel_def)

lemma context_row_lengths:
  assumes wf: "\<forall>e\<in>set embs. shape e = s \<and> well_formed e" and i: "i < length embs"
  shows "\<forall>t\<in>set (context_row (torch_zeros T s) embs i). length (data t) = numel s"
proof -
  have "\<forall>j\<le>i. length (data (embs ! j)) = numel s"
    using assms by (simp add: all_set_conv_all_nth well_formed_def)
  then show ?thesis
    by (simp add: context_row_def torch_zeros_def)
qed

lemma unbind_stacked:
  assumes "\<forall>t\<in>set ts. dtype t = d \<and> shape t = s \<and> length (data t) = numel s"
  shows "unbind (Tensor d (length ts # s) (concat (map data ts))) = Inr ts"
proof -
  have "map (\<lambda>i. Tensor d s (take (numel s) (drop (i * numel s) (concat (map data ts)))))
          [0..<length ts] = ts"
  proof (rule nth_equalityI)
    show "length (map (\<lambda>i. Tensor d s (take (numel s) (drop (i * numel s)
            (concat (map data ts))))) [0..<length ts]) = length ts" by simp
  next
    fix i
    assume "i < length (map (\<lambda>i. Tensor d s (take (numel s) (drop (i * numel s)
            (concat (map data ts))))) [0..<length ts])"
    then have i: "i < length ts" by simp
    have "take (numel s) (drop (i * numel s) (concat (map data ts))) = map data ts ! i"
      using assms i by (intro concat_block) auto
    moreover have "shape (ts ! i) = s" and "dtype (ts ! i) = d" using assms i by simp_all
    ultimately show "map (\<lambda>i. Tensor d s (take (numel s) (drop (i * numel s)
            (concat (map data ts))))) [0..<length ts] ! i = ts ! i"
      using i by (cases "ts ! i") simp
  qed
  then show ?thesis by (simp add: unbind_def)
qed

lemma select_stacked:
  assumes "\<forall>t\<in>set ts. dtype t = d \<and> shape t = s \<and> length (data t) = numel s"
    and "i < length ts"
  shows "tensor_select (Tensor d (length ts # s) (concat (map data ts))) i = Inr (ts ! i)"
proof -
  have "take (numel s) (drop (i * numel s) (concat (map data ts))) = map data ts ! i"
    using assms by (intro concat_block) auto
  moreover have "shape (ts ! i) = s" and "dtype (ts ! i) = d" using assms by simp_all
  ultimately show ?thesis
    using assms(2) by (cases "ts ! i") (simp add: tensor_select_def)
qed

lemma example_at_prepare:
  assumes ne: "embs \<noteq> []"
    and wf: "\<forall>e\<in>set embs. shape e = s \<and> well_formed e"
    and dt: "\<forall>e\<in>set embs. dtype e = default_dtype T"
    and i: "i < length embs"
    and pd: "prepare_data T embs = Inr Xy"
  shows "example_at Xy i = Inr (context_row (torch_zeros T s) embs i, embs ! i)"
proof -
  let ?d = "default_dtype T"
  have sh: "\<forall>e\<in>set embs. shape e = s" using wf by simp
  let ?row = "\<lambda>j. context_row (torch_zeros T s) embs j"
  let ?rows = "map (\<lambda>j. Tensor ?d (3 # s) (concat (map data (?row j)))) [0..<length embs]"
  have Xy: "Xy = (Tensor ?d (length ?rows # 3 # s) (concat (map data ?rows)),
                  Tensor ?d (length embs # s) (concat (map data embs)))"
    using pd prepare_data_same[OF ne sh dt] by (simp add: comp_def)
  have rowlen: "\<forall>t\<in>set ?rows. dtype t = ?d \<and> shape t = 3 # s \<and>
      length (data t) = numel (3 # s)"
  proof
    fix t assume "t \<in> set ?rows"
    then obtain j where j: "j < length embs"
      and t: "t = Tensor ?d (3 # s) (concat (map data (?row j)))" by auto
    have "\<forall>u\<in>set (?row j). length (data u) = numel s"
      using wf j by (rule context_row_lengths)
    then have "length (concat (map data (?row j))) = 3 * numel s"
      by (simp add: context_row_def)
    then show "dtype t = ?d \<and> shape t = 3 # s \<and> length (data t) = numel (3 # s)"
      by (simp add: t numel_Cons)
  qed
  have "i < length ?rows" using i by simp
  with rowlen have "tensor_select (fst Xy) i = Inr (?rows ! i)"
    unfolding Xy fst_conv by (rule select_stacked)
  then have c: "tensor_select (fst Xy) i =
      Inr (Tensor ?d (3 # s) (concat (map data (?row i))))"
    using i by simp
  have "\<forall>t\<in>set (?row i). dtype t = ?d \<and> shape t = s \<and> length (data t) = numel s"
    using context_row_shapes[OF sh i] context_row_lengths[OF wf i] context_row_dtypes[OF dt i]
    by blast
  then have "unbind (Tensor ?d (length (?row i) # s) (concat (map data (?row i))))
      = Inr (?row i)"
    by (rule unbind_stacked)
  then have u: "unbind (Tensor ?d (3 # s) (concat (map data (?row i)))) = Inr (?row i)"
    by (simp only: length_context_row)
  have "\<forall>t\<in>set embs. dtype t = ?d \<and> shape t = s \<and> length (data t) = numel s"
    using wf dt by (simp add: well_formed_def)
  then have "tensor_select (Tensor ?d (length embs # s) (concat (map data embs))) i
      = Inr (embs ! i)"
    using i by (rule select_stacked)
  then have t: "tensor_select (snd Xy) i = Inr (embs ! i)" by (simp add: Xy)
  show ?thesis by (simp add: example_at_def c u t)
qed

lemma example_at_slots:
  assumes ne: "embs \<noteq> []"
    and sh: "\<forall>e\<in>set embs. shape e = s"
    and i: "i < length embs"
    and pd: "prepare_data T embs = Inr Xy"
  shows "\<exists>ex. example_at Xy i = Inr ex \<and> length (fst ex) = 3"
proof -
  have "shape (fst Xy) = length embs # 3 # s" and "shape (snd Xy) = length embs # s"
    using pd prepare_data_shapes[OF ne sh, of T] by auto
  then show ?thesis
    using i by (simp add: example_at_def tensor_select_def unbind_def)
qed

lemma tensor_len_prepare:
  assumes ne: "embs \<noteq> []" and sh: "\<forall>e\<in>set embs. shape e = s"
    and pd: "prepare_data T embs = Inr Xy"
  shows "tensor_len (fst Xy) = Some (length embs) \<and> tensor_len (snd Xy) = Some (length embs)"
  using pd prepare_data_shapes[OF ne sh, of T] by (auto simp: tensor_len_def)

lemma process_videos_length:
  "process_videos T VideoCapture cvt get_vec fps video_paths dataset = Inr result \<Longrightarrow>
   length result = length dataset + 2 * length video_paths"
proof (induction video_paths arbitrary: dataset)
  case Nil
  then show ?case by simp
next
  case (Cons video_path rest)
  from Cons.prems obtain frms Xy where
    "process_videos T VideoCapture cvt get_vec fps rest (dataset @ [fst Xy, snd Xy]) = Inr result"
    by (auto split: sum.splits)
  then have "length result = length (dataset @ [fst Xy, snd Xy]) + 2 * length rest"
    by (rule Cons.IH)
  then show ?case by simp
qed

section \<open>Properties\<close>

subsection \<open>WindowBuilder\<close>

text \<open>
  C3. The spec asks that an empty embedding sequence yields zero Examples without an
  error. The code reads \<open>embedded_frames[0].shape\<close> before its loop, so on the
  empty sequence \<open>prepare_data\<close> raises \<open>IndexError\<close>.
\<close>

theorem prepare_data_empty_raises:
  "prepare_data T [] = Inl IndexError"
  by (simp add: prepare_data_def)

text \<open>
  C4, as the code has it. The window size is fixed at 3. For embeddings that share one
  shape, are well formed and have the dtype of the null frame (torch's default, float32,
  which is what the Embedder returns), \<open>prepare_data\<close> succeeds, and for every index
  \<open>i\<close> below their number Example \<open>i\<close> is the one the specification describes for
  \<open>W = 3\<close>: three context slots, slot \<open>k\<close> being \<open>embeddings[i - (3 - k)]\<close> when
  that index is not negative and the all-zero tensor of the embeddings' shape otherwise,
  and target \<open>embeddings[i]\<close>. For five embeddings \<open>e0..e4\<close> the Examples are
  \<open>([0,0,0],e0)\<close>, \<open>([0,0,e0],e1)\<close>, \<open>([0,e0,e1],e2)\<close>, \<open>([e0,e1,e2],e3)\<close>,
  \<open>([e1,e2,e3],e4)\<close>.
\<close>

theorem prepare_data_context_and_target:
  assumes "embs \<noteq> []"
    and "\<forall>e\<in>set embs. shape e = shape (hd embs) \<and> well_formed e \<and> dtype e = default_dtype T"
  shows "\<exists>Xy. prepare_data T embs = Inr Xy \<and>
     (\<forall>i<length embs. \<exists>context target.
        example_at Xy i = Inr (context, target) \<and>
        (context, target) = spec_example 3 (torch_zeros T (shape (hd embs))) embs i \<and>
        length context = 3 \<and>
        (\<forall>k<3. context ! k =
           (if int i - (3 - int k) < 0 then torch_zeros T (shape (hd embs))
            else embs ! nat (int i - (3 - int k)))) \<and>
        target = embs ! i) \<and>
     (\<forall>e0 e1 e2 e3 e4. embs = [e0, e1, e2, e3, e4] \<longrightarrow>
        (let z = torch_zeros T (shape e0) in
         map (example_at Xy) [0..<5] =
           [Inr ([z, z, z], e0), Inr ([z, z, e0], e1), Inr ([z, e0, e1], e2),
            Inr ([e0, e1, e2], e3), Inr ([e1, e2, e3], e4)]))"
proof -
  let ?s = "shape (hd embs)"
  have sh: "\<forall>e\<in>set embs. shape e = ?s" using assms(2) by simp
  have wf: "\<forall>e\<in>set embs. shape e = ?s \<and> well_formed e" using assms(2) by simp
  have dt: "\<forall>e\<in>set embs. dtype e = default_dtype T" using assms(2) by simp
  obtain Xy where pd: "prepare_data T embs = Inr Xy"
    using prepare_data_same[OF assms(1) sh dt] by blast
  have ex: "example_at Xy i = Inr (context_row (torch_zeros T ?s) embs i, embs ! i)"
    if "i < length embs" for i
    using assms(1) wf dt that pd by (rule example_at_prepare)
  have slot: "context_row (torch_zeros T ?s) embs i ! k =
      (if int i - (3 - int k) < 0 then torch_zeros T ?s else embs ! nat (int i - (3 - int k)))"
    if "k < 3" for i k
  proof -
    from that consider "k = 0" | "k = 1" | "k = 2" by linarith
    then show ?thesis
      by cases (auto simp: context_row_def nat_diff_distrib)
  qed
  have spec: "(context_row (torch_zeros T ?s) embs i, embs ! i)
      = spec_example 3 (torch_zeros T ?s) embs i" for i
  proof -
    have "[0..<3] = [0, 1, 2 :: nat]" by (simp add: upt_rec)
    then show ?thesis
      by (auto simp: spec_example_def context_row_def nat_diff_distrib)
  qed
  have general: "\<forall>i<length embs. \<exists>context target.
        example_at Xy i = Inr (context, target) \<and>
        (context, target) = spec_example 3 (torch_zeros T ?s) embs i \<and>
        length context = 3 \<and>
        (\<forall>k<3. context ! k =
           (if int i - (3 - int k) < 0 then torch_zeros T ?s
            else embs ! nat (int i - (3 - int k)))) \<and>
        target = embs ! i"
  proof (intro allI impI)
    fix i assume i: "i < length embs"
    let ?c = "context_row (torch_zeros T ?s) embs i"
    have "example_at Xy i = Inr (?c, embs ! i)" using ex[OF i] .
    moreover have "(?c, embs ! i) = spec_example 3 (torch_zeros T ?s) embs i" by (rule spec)
    moreover have "length ?c = 3" by (rule length_context_row)
    moreover have "\<forall>k<3. ?c ! k =
           (if int i - (3 - int k) < 0 then torch_zeros T ?s
            else embs ! nat (int i - (3 - int k)))"
      using slot by blast
    ultimately show "\<exists>context target.
        example_at Xy i = Inr (context, target) \<and>
        (context, target) = spec_example 3 (torch_zeros T ?s) embs i \<and>
        length context = 3 \<and>
        (\<forall>k<3. context ! k =
           (if int i - (3 - int k) < 0 then torch_zeros T ?s
            else embs ! nat (int i - (3 - int k)))) \<and>
        target = embs ! i"
      by blast
  qed
  have scenario: "let z = torch_zeros T (shape e0) in
         map (example_at Xy) [0..<5] =
           [Inr ([z, z, z], e0), Inr ([z, z, e0], e1), Inr ([z, e0, e1], e2),
            Inr ([e0, e1, e2], e3), Inr ([e1, e2, e3], e4)]"
    if embs: "embs = [e0, e1, e2, e3, e4]" for e0 e1 e2 e3 e4
  proof -
    have "[0..<5] = [0, 1, 2, 3, 4::nat]" by (simp add: upt_rec)
    moreover have "example_at Xy 0 = Inr (context_row (torch_zeros T ?s) embs 0, embs ! 0)"
      using ex[of 0] embs by simp
    moreover have "example_at Xy 1 = Inr (context_row (torch_zeros T ?s) embs 1, embs ! 1)"
      using ex[of 1] embs by simp
    moreover have "example_at Xy 2 = Inr (context_row (torch_zeros T ?s) embs 2, embs ! 2)"
      using ex[of 2] embs by simp
    moreover have "example_at Xy 3 = Inr (context_row (torch_zeros T ?s) embs 3, embs ! 3)"
      using ex[of 3] embs by simp
    moreover have "example_at Xy 4 = Inr (context_row (torch_zeros T ?s) embs 4, embs ! 4)"
      using ex[of 4] embs by simp
    ultimately show ?thesis
      by (simp add: embs context_row_def Let_def)
  qed
  from pd general scenario show ?thesis by blast
qed

theorem prepare_data_context_and_target_witness:
  "\<exists>Xy. prepare_data torch_cpu
            [Tensor Float32 [2] [Finite 1, Finite 2], Tensor Float32 [2] [Finite 3, Finite 4],
             Tensor Float32 [2] [Finite 5, Finite 6], Tensor Float32 [2] [Finite 7, Finite 8],
             Tensor Float32 [2] [Finite 9, Finite 10]] = Inr Xy \<and>
     map (example_at Xy) [0..<5] =
       [Inr ([Tensor Float32 [2] [Finite 0, Finite 0], Tensor Float32 [2] [Finite 0, Finite 0],
              Tensor Float32 [2] [Finite 0, Finite 0]], Tensor Float32 [2] [Finite 1, Finite 2]),
        Inr ([Tensor Float32 [2] [Finite 0, Finite 0], Tensor Float32 [2] [Finite 0, Finite 0],
              Tensor Float32 [2] [Finite 1, Finite 2]], Tensor Float32 [2] [Finite 3, Finite 4]),
        Inr ([Tensor Float32 [2] [Finite 0, Finite 0], Tensor Float32 [2] [Finite 1, Finite 2],
              Tensor Float32 [2] [Finite 3, Finite 4]], Tensor Float32 [2] [Finite 5, Finite 6]),
        Inr ([Tensor Float32 [2] [Finite 1, Finite 2], Tensor Float32 [2] [Finite 3, Finite 4],
              Tensor Float32 [2] [Finite 5, Finite 6]], Tensor Float32 [2] [Finite 7, Finite 8]),
        Inr ([Tensor Float32 [2] [Finite 3, Finite 4], Tensor Float32 [2] [Finite 5, Finite 6],
              Tensor Float32 [2] [Finite 7, Finite 8]], Tensor Float32 [2] [Finite 9, Finite 10])]"
proof -
  let ?e0 = "Tensor Float32 [2] [Finite 1, Finite 2]"
  let ?e1 = "Tensor Float32 [2] [Finite 3, Finite 4]"
  let ?e2 = "Tensor Float32 [2] [Finite 5, Finite 6]"
  let ?e3 = "Tensor Float32 [2] [Finite 7, Finite 8]"
  let ?e4 = "Tensor Float32 [2] [Finite 9, Finite 10]"
  let ?embs = "[?e0, ?e1, ?e2, ?e3, ?e4]"
  have h1: "?embs \<noteq> []" by simp
  have h2: "\<forall>e\<in>set ?embs. shape e = shape (hd ?embs) \<and> well_formed e \<and>
      dtype e = default_dtype torch_cpu"
    by (simp add: well_formed_def numel_def torch_cpu_def)
  from prepare_data_context_and_target[OF h1 h2]
  obtain Xy where pd: "prepare_data torch_cpu ?embs = Inr Xy"
    and sc: "\<forall>e0 e1 e2 e3 e4. ?embs = [e0, e1, e2, e3, e4] \<longrightarrow>
        (let z = torch_zeros torch_cpu (shape e0) in
         map (example_at Xy) [0..<5] =
           [Inr ([z, z, z], e0), Inr ([z, z, e0], e1), Inr ([z, e0, e1], e2),
            Inr ([e0, e1, e2], e3), Inr ([e1, e2, e3], e4)])"
    by blast
  from sc have "let z = torch_zeros torch_cpu (shape ?e0) in
         map (example_at Xy) [0..<5] =
           [Inr ([z, z, z], ?e0), Inr ([z, z, ?e0], ?e1), Inr ([z, ?e0, ?e1], ?e2),
            Inr ([?e0, ?e1, ?e2], ?e3), Inr ([?e1, ?e2, ?e3], ?e4)]"
    by blast
  then have m: "map (example_at Xy) [0..<5] =
       [Inr ([Tensor Float32 [2] [Finite 0, Finite 0], Tensor Float32 [2] [Finite 0, Finite 0],
              Tensor Float32 [2] [Finite 0, Finite 0]], ?e0),
        Inr ([Tensor Float32 [2] [Finite 0, Finite 0], Tensor Float32 [2] [Finite 0, Finite 0],
              ?e0], ?e1),
        Inr ([Tensor Float32 [2] [Finite 0, Finite 0], ?e0, ?e1], ?e2),
        Inr ([?e0, ?e1, ?e2], ?e3),
        Inr ([?e1, ?e2, ?e3], ?e4)]"
    by (simp add: Let_def torch_zeros_def torch_cpu_def numel_def numeral_2_eq_2 zero_fval_def)
  show ?thesis by (rule exI[of _ Xy]) (rule conjI[OF pd m])
qed

text \<open>
  C4 as stated does not hold. For window size 2 and two float32 embeddings, Example 1 of
  the code has the three slots \<open>[0, 0, e0]\<close> and not the two slots \<open>[0, e0]\<close> the
  claim describes. And for int64 embeddings the null frame is still float32, so stacking
  a context row converts the embedding in it to float32: 16777217 becomes 16777216.0 and
  the slot is not the embedding.
\<close>

theorem window_spec_counterexample:
  "(case prepare_data torch_cpu
           [Tensor Float32 [2] [Finite 1, Finite 2], Tensor Float32 [2] [Finite 3, Finite 4]] of
      Inl e \<Rightarrow> Inl e
    | Inr Xy \<Rightarrow> example_at Xy 1)
   \<noteq> Inr (spec_example 2 (torch_zeros torch_cpu [2])
            [Tensor Float32 [2] [Finite 1, Finite 2], Tensor Float32 [2] [Finite 3, Finite 4]] 1) \<and>
   (case prepare_data torch_cpu
           [Tensor Int64 [2] [Finite 16777217, Finite 16777217],
            Tensor Int64 [2] [Finite 16777217, Finite 16777217]] of
      Inl e \<Rightarrow> Inl e
    | Inr Xy \<Rightarrow> example_at Xy 1)
   = Inr ([Tensor Float32 [2] [Finite 0, Finite 0], Tensor Float32 [2] [Finite 0, Finite 0],
           Tensor Float32 [2] [Finite 16777216, Finite 16777216]],
          Tensor Int64 [2] [Finite 16777217, Finite 16777217]) \<and>
   (case prepare_data torch_cpu
           [Tensor Int64 [2] [Finite 16777217, Finite 16777217],
            Tensor Int64 [2] [Finite 16777217, Finite 16777217]] of
      Inl e \<Rightarrow> Inl e
    | Inr Xy \<Rightarrow> example_at Xy 1)
   \<noteq> Inr (spec_example 3 (torch_zeros torch_cpu [2])
            [Tensor Int64 [2] [Finite 16777217, Finite 16777217],
             Tensor Int64 [2] [Finite 16777217, Finite 16777217]] 1)"
proof -
  have f32: "prepare_data torch_cpu
      [Tensor Float32 [2] [Finite 1, Finite 2], Tensor Float32 [2] [Finite 3, Finite 4]]
    = Inr (Tensor Float32 [2, 3, 2]
             [Finite 0, Finite 0, Finite 0, Finite 0, Finite 0, Finite 0,
              Finite 0, Finite 0, Finite 0, Finite 0, Finite 1, Finite 2],
           Tensor Float32 [2, 2] [Finite 1, Finite 2, Finite 3, Finite 4])"
    by (simp add: prepare_data_def context_row_def torch_stack_def torch_zeros_def numel_def
        result_dtype_def to_dtype_def torch_cpu_def zero_fval_def upt_rec numeral_2_eq_2)
  have i64: "prepare_data torch_cpu
      [Tensor Int64 [2] [Finite 16777217, Finite 16777217],
       Tensor Int64 [2] [Finite 16777217, Finite 16777217]]
    = Inr (Tensor Float32 [2, 3, 2]
             [Finite 0, Finite 0, Finite 0, Finite 0, Finite 0, Finite 0,
              Finite 0, Finite 0, Finite 0, Finite 0, Finite 16777216, Finite 16777216],
           Tensor Int64 [2, 2]
             [Finite 16777217, Finite 16777217, Finite 16777217, Finite 16777217])"
    by (simp add: prepare_data_def context_row_def torch_stack_def torch_zeros_def numel_def
        result_dtype_def to_dtype_def torch_cpu_def promote_scalar_def convert_scalar_def
        to_single_16777217 zero_fval_def upt_rec numeral_2_eq_2)
  have a: "(case prepare_data torch_cpu
           [Tensor Float32 [2] [Finite 1, Finite 2], Tensor Float32 [2] [Finite 3, Finite 4]] of
      Inl e \<Rightarrow> Inl e
    | Inr Xy \<Rightarrow> example_at Xy 1)
   \<noteq> Inr (spec_example 2 (torch_zeros torch_cpu [2])
            [Tensor Float32 [2] [Finite 1, Finite 2], Tensor Float32 [2] [Finite 3, Finite 4]] 1)"
    using f32
    by (simp add: example_at_def tensor_select_def unbind_def numel_def spec_example_def
        upt_rec numeral_2_eq_2)
  have b: "(case prepare_data torch_cpu
           [Tensor Int64 [2] [Finite 16777217, Finite 16777217],
            Tensor Int64 [2] [Finite 16777217, Finite 16777217]] of
      Inl e \<Rightarrow> Inl e
    | Inr Xy \<Rightarrow> example_at Xy 1)
   = Inr ([Tensor Float32 [2] [Finite 0, Finite 0], Tensor Float32 [2] [Finite 0, Finite 0],
           Tensor Float32 [2] [Finite 16777216, Finite 16777216]],
          Tensor Int64 [2] [Finite 16777217, Finite 16777217])"
    using i64
    by (simp add: example_at_def tensor_select_def unbind_def numel_def upt_rec
        numeral_2_eq_2)
  have c: "spec_example 3 (torch_zeros torch_cpu [2])
      [Tensor Int64 [2] [Finite 16777217, Finite 16777217],
       Tensor Int64 [2] [Finite 16777217, Finite 16777217]] 1
   = ([Tensor Float32 [2] [Finite 0, Finite 0], Tensor Float32 [2] [Finite 0, Finite 0],
       Tensor Int64 [2] [Finite 16777217, Finite 16777217]],
      Tensor Int64 [2] [Finite 16777217, Finite 16777217])"
    by (simp add: spec_example_def torch_zeros_def torch_cpu_def numel_def zero_fval_def
        upt_rec numeral_2_eq_2 numeral_3_eq_3)
  from a b show ?thesis unfolding b c by simp
qed

text \<open>
  C2, as the code has it. \<open>prepare_data\<close> has no window parameter: it builds three
  context slots. For a non-empty sequence of embeddings of one shape it succeeds with as
  many Examples as embeddings, and every context has exactly \<open>W\<close> slots if and only
  if \<open>W = 3\<close>.
\<close>

theorem prepare_data_counts_fixed_window:
  assumes "embs \<noteq> []" and "\<forall>e\<in>set embs. shape e = shape (hd embs)"
  shows "builds_windows_of T W embs \<longleftrightarrow> W = 3"
proof -
  obtain Xy where pd: "prepare_data T embs = Inr Xy"
    using prepare_data_shapes[OF assms, of T] by blast
  have len: "tensor_len (fst Xy) = Some (length embs) \<and>
             tensor_len (snd Xy) = Some (length embs)"
    using assms pd by (rule tensor_len_prepare)
  have slots: "\<exists>ex. example_at Xy i = Inr ex \<and> length (fst ex) = 3"
    if "i < length embs" for i
    using assms that pd by (rule example_at_slots)
  have "builds_windows_of T W embs \<longleftrightarrow>
        (\<forall>i<length embs. case example_at Xy i of Inl _ \<Rightarrow> False
                                                 | Inr ex \<Rightarrow> length (fst ex) = W)"
    by (auto simp: builds_windows_of_def pd len list_all_iff)
  also have "\<dots> \<longleftrightarrow> W = 3"
  proof
    assume a: "\<forall>i<length embs. case example_at Xy i of Inl _ \<Rightarrow> False
                                                 | Inr ex \<Rightarrow> length (fst ex) = W"
    have "0 < length embs" using assms(1) by simp
    with a slots[of 0] show "W = 3" by (auto split: sum.splits)
  next
    assume W: "W = 3"
    show "\<forall>i<length embs. case example_at Xy i of Inl _ \<Rightarrow> False
                                                 | Inr ex \<Rightarrow> length (fst ex) = W"
    proof (intro allI impI)
      fix i assume "i < length embs"
      then obtain ex where "example_at Xy i = Inr ex" and "length (fst ex) = 3"
        using slots by blast
      then show "case example_at Xy i of Inl _ \<Rightarrow> False
                                       | Inr ex \<Rightarrow> length (fst ex) = W"
        by (simp add: W)
    qed
  qed
  finally show ?thesis .
qed

theorem prepare_data_counts_fixed_window_witness:
  "builds_windows_of torch_cpu 3
     [Tensor Float32 [2] [Finite 1, Finite 2], Tensor Float32 [2] [Finite 3, Finite 4]]"
  using prepare_data_counts_fixed_window
    [of "[Tensor Float32 [2] [Finite 1, Finite 2], Tensor Float32 [2] [Finite 3, Finite 4]]"
        torch_cpu 3]
  by simp

text \<open>
  C2 as stated (every \<open>N \<ge> 0\<close> and every window size) does not hold: for one
  embedding and window size 2 the context has three slots, and for no embedding at all
  the call raises instead of returning zero Examples.
\<close>

theorem builds_windows_of_counterexample:
  "\<not> builds_windows_of torch_cpu 2 [Tensor Float32 [2] [Finite 1, Finite 2]] \<and>
   \<not> builds_windows_of torch_cpu 3 []"
  by (simp add: builds_windows_of_def prepare_data_def context_row_def torch_stack_def
      torch_zeros_def numel_def example_at_def tensor_select_def unbind_def tensor_len_def
      result_dtype_def to_dtype_def torch_cpu_def upt_rec)

text \<open>
  C9. If some embedding's shape differs from the first one's, \<open>prepare_data\<close> raises
  the size error of \<open>torch.stack\<close> (while stacking a context row, the rows, or the
  targets) and returns nothing. If all shapes agree, no stacking error is raised, and a
  non-empty input yields a result.
\<close>

theorem prepare_data_shape_check:
  "((\<exists>e\<in>set embs. shape e \<noteq> shape (hd embs)) \<longrightarrow>
      prepare_data T embs = Inl RuntimeError_stack_size) \<and>
   ((\<forall>e\<in>set embs. shape e = shape (hd embs)) \<longrightarrow>
      prepare_data T embs \<noteq> Inl RuntimeError_stack_size \<and>
      prepare_data T embs \<noteq> Inl RuntimeError_stack_empty \<and>
      (embs \<noteq> [] \<longrightarrow> (\<exists>Xy. prepare_data T embs = Inr Xy)))"
proof (intro conjI impI)
  assume "\<exists>e\<in>set embs. shape e \<noteq> shape (hd embs)"
  then show "prepare_data T embs = Inl RuntimeError_stack_size"
    using prepare_data_mismatch by blast
next
  assume same: "\<forall>e\<in>set embs. shape e = shape (hd embs)"
  have ok: "\<exists>Xy. prepare_data T embs = Inr Xy" if "embs \<noteq> []"
    using prepare_data_shapes[OF that same, of T] by blast
  have empty: "prepare_data T embs = Inl IndexError" if "embs = []"
    using that by (simp add: prepare_data_def)
  show "prepare_data T embs \<noteq> Inl RuntimeError_stack_size"
    using ok empty by (cases "embs = []") auto
  show "prepare_data T embs \<noteq> Inl RuntimeError_stack_empty"
    using ok empty by (cases "embs = []") auto
  show "\<exists>Xy. prepare_data T embs = Inr Xy" if "embs \<noteq> []"
    using ok that .
qed

theorem prepare_data_shape_check_witness:
  "prepare_data torch_cpu
     [Tensor Float32 [2] [Finite 1, Finite 2], Tensor Float32 [2] [Finite 3, Finite 4],
      Tensor Float32 [3] [Finite 5, Finite 6, Finite 7]]
     = Inl RuntimeError_stack_size \<and>
   (\<exists>Xy. prepare_data torch_cpu
      [Tensor Float32 [2] [Finite 1, Finite 2], Tensor Float32 [2] [Finite 3, Finite 4]]
      = Inr Xy)"
  using prepare_data_shape_check
      [of "[Tensor Float32 [2] [Finite 1, Finite 2], Tensor Float32 [2] [Finite 3, Finite 4],
            Tensor Float32 [3] [Finite 5, Finite 6, Finite 7]]" torch_cpu]
    prepare_data_shape_check
      [of "[Tensor Float32 [2] [Finite 1, Finite 2], Tensor Float32 [2] [Finite 3, Finite 4]]"
          torch_cpu]
  by simp

subsection \<open>FrameSampler\<close>



text \<open>
  C6, as the code has it. A frame rate of 0, which is what the decoder reports when the
  rate is unknown, is not rejected, and it is only the dividend. Whenever \<open>fps\<close>
  converts to a float that is neither zero nor a NaN (every non-zero float other than a
  NaN, every non-zero int of magnitude below \<open>2^1023\<close>), the stride is
  \<open>max(1, round(0.0)) = 1\<close> and every decoded frame is retained. What can fail is
  \<open>fps\<close>: a zero raises \<open>ZeroDivisionError\<close>, a NaN \<open>ValueError\<close>, and an int
  too large for a float (magnitude \<open>2^1024\<close> or more) \<open>OverflowError\<close>.
\<close>

theorem load_video_frames_zero_rate:
  assumes "frame_rate (VideoCapture video_path) = Finite 0"
  shows
    "load_video_frames VideoCapture cvt video_path fps =
       (case to_float fps of
          Inl e \<Rightarrow> Inl e
        | Inr f \<Rightarrow>
            if f = Finite 0 then Inl ZeroDivisionError
            else if f = NaN then Inl ValueError
            else Inr (map cvt (frames (VideoCapture video_path)))) \<and>
     (\<forall>f. fps = PyFloat f \<and> f \<noteq> Finite 0 \<and> f \<noteq> NaN \<longrightarrow>
        frame_skip (Finite 0) fps = Inr 1 \<and>
        load_video_frames VideoCapture cvt video_path fps =
          Inr (map cvt (frames (VideoCapture video_path)))) \<and>
     (\<forall>n. fps = PyInt n \<and> n \<noteq> 0 \<and> \<bar>n\<bar> < 2 ^ 1023 \<longrightarrow>
        frame_skip (Finite 0) fps = Inr 1 \<and>
        load_video_frames VideoCapture cvt video_path fps =
          Inr (map cvt (frames (VideoCapture video_path)))) \<and>
     (\<forall>n. fps = PyInt n \<and> 2 ^ 1024 \<le> \<bar>n\<bar> \<longrightarrow>
        load_video_frames VideoCapture cvt video_path fps = Inl OverflowError)"
proof -
  have load: "load_video_frames VideoCapture cvt video_path fps =
      (case frame_skip (Finite 0) fps of
         Inl e \<Rightarrow> Inl e
       | Inr stride \<Rightarrow>
           Inr (map (\<lambda>i. cvt (frames (VideoCapture video_path) ! i))
                  (filter (\<lambda>i. int i mod stride = 0)
                     [0..<length (frames (VideoCapture video_path))])))"
    using load_video_frames_eq [of VideoCapture cvt video_path fps] by (simp only: assms)
  have all: "load_video_frames VideoCapture cvt video_path fps =
      Inr (map cvt (frames (VideoCapture video_path)))"
    if "frame_skip (Finite 0) fps = Inr 1"
    using that by (intro load_video_frames_all) (simp only: assms)
  have general: "load_video_frames VideoCapture cvt video_path fps =
       (case to_float fps of
          Inl e \<Rightarrow> Inl e
        | Inr f \<Rightarrow>
            if f = Finite 0 then Inl ZeroDivisionError
            else if f = NaN then Inl ValueError
            else Inr (map cvt (frames (VideoCapture video_path))))"
  proof (cases "frame_skip (Finite 0) fps = Inr 1")
    case True
    then show ?thesis
      using all by (auto simp: frame_skip_zero_rate split: sum.splits if_splits)
  next
    case False
    then show ?thesis
      unfolding load by (auto simp: frame_skip_zero_rate split: sum.splits if_splits)
  qed
  have floats: "frame_skip (Finite 0) fps = Inr 1 \<and>
        load_video_frames VideoCapture cvt video_path fps =
          Inr (map cvt (frames (VideoCapture video_path)))"
    if "fps = PyFloat f" "f \<noteq> Finite 0" "f \<noteq> NaN" for f
  proof -
    have "frame_skip (Finite 0) fps = Inr 1"
      using that by (simp add: frame_skip_zero_rate to_float_def)
    then show ?thesis using all by simp
  qed
  have ints: "frame_skip (Finite 0) fps = Inr 1 \<and>
        load_video_frames VideoCapture cvt video_path fps =
          Inr (map cvt (frames (VideoCapture video_path)))"
    if fp: "fps = PyInt n" and nz: "n \<noteq> 0" and small: "\<bar>n\<bar> < 2 ^ 1023" for n
  proof -
    obtain y where "to_float (PyInt n) = Inr (Finite y)" "1 \<le> \<bar>y\<bar>"
      using to_float_int [OF nz small] by blast
    then have "frame_skip (Finite 0) fps = Inr 1"
      using fp by (auto simp: frame_skip_zero_rate)
    then show ?thesis using all by simp
  qed
  have big: "load_video_frames VideoCapture cvt video_path fps = Inl OverflowError"
    if fp: "fps = PyInt n" and large: "2 ^ 1024 \<le> \<bar>n\<bar>" for n
  proof -
    have "to_float fps = Inl OverflowError"
      using to_float_int_overflow [OF large] fp by simp
    then show ?thesis by (simp only: general sum.case)
  qed
  from general floats ints big show ?thesis by blast
qed

theorem load_video_frames_zero_rate_witness:
  "load_video_frames (\<lambda>_. \<lparr>frame_rate = Finite 0, frames = [10, 20, 30 :: nat]\<rparr>) Suc ''a.mp4''
     (PyInt 8) = Inr [11, 21, 31] \<and>
   load_video_frames (\<lambda>_. \<lparr>frame_rate = Finite 0, frames = [10, 20, 30 :: nat]\<rparr>) Suc ''a.mp4''
     (PyFloat PosInf) = Inr [11, 21, 31] \<and>
   load_video_frames (\<lambda>_. \<lparr>frame_rate = Finite 0, frames = [10, 20, 30 :: nat]\<rparr>) Suc ''a.mp4''
     (PyInt (2 ^ 1024)) = Inl OverflowError"
proof -
  let ?cap = "\<lambda>_ :: string. \<lparr>frame_rate = Finite 0, frames = [10, 20, 30 :: nat]\<rparr>"
  have h: "frame_rate (?cap ''a.mp4'') = Finite 0" by simp
  have small: "(8::int) \<noteq> 0 \<and> \<bar>8::int\<bar> < 2 ^ 1023" by simp
  have big: "(2::int) ^ 1024 \<le> \<bar>2 ^ 1024\<bar>" by simp
  have 1: "load_video_frames ?cap Suc ''a.mp4'' (PyInt 8) = Inr (map Suc (frames (?cap ''a.mp4'')))"
    using load_video_frames_zero_rate [of ?cap "''a.mp4''" Suc "PyInt 8", OF h] small by blast
  have 2: "load_video_frames ?cap Suc ''a.mp4'' (PyFloat PosInf)
      = Inr (map Suc (frames (?cap ''a.mp4'')))"
    using load_video_frames_zero_rate [of ?cap "''a.mp4''" Suc "PyFloat PosInf", OF h] by blast
  have 3: "load_video_frames ?cap Suc ''a.mp4'' (PyInt (2 ^ 1024)) = Inl OverflowError"
    using load_video_frames_zero_rate [of ?cap "''a.mp4''" Suc "PyInt (2 ^ 1024)", OF h] big by blast
  from 1 2 3 show ?thesis by simp
qed

text \<open>
  C6 as stated does not hold: with a frame rate of 0 and \<open>fps = 8\<close> the call returns
  the frames and raises nothing.
\<close>

theorem zero_rate_counterexample:
  "load_video_frames (\<lambda>_. \<lparr>frame_rate = Finite 0, frames = [10, 20, 30 :: nat]\<rparr>) id ''a.mp4''
     (PyInt 8) = Inr [10, 20, 30]"
proof -
  have "frame_skip (Finite 0) (PyInt 8) = Inr 1"
    by (simp add: frame_skip_zero_rate to_float_def to_double_8)
  then show ?thesis
    by (simp add: load_video_frames_def)
qed

text \<open>
  C10, as the code has it. For a video with at least one decodable frame, whenever the
  stride computation succeeds \<open>load_video_frames\<close> returns a list that starts with the
  (converted) first frame of the video. It succeeds for every finite frame rate \<open>R\<close>
  and positive \<open>fps\<close> whose quotient stays in the range of a float: a float \<open>fps\<close>
  with \<open>|R| / fps < 2^1023\<close>, or an int \<open>fps\<close> below \<open>2^1023\<close> with
  \<open>|R| < 2^1023\<close>.
\<close>

theorem load_video_frames_keeps_first:
  assumes "frames (VideoCapture video_path) \<noteq> []"
  shows
    "(\<forall>stride. frame_skip (frame_rate (VideoCapture video_path)) fps = Inr stride \<longrightarrow>
        (\<exists>rest. load_video_frames VideoCapture cvt video_path fps =
           Inr (cvt (hd (frames (VideoCapture video_path))) # rest))) \<and>
     (\<forall>x y. frame_rate (VideoCapture video_path) = Finite x \<and> fps = PyFloat (Finite y) \<and>
            0 < y \<and> \<bar>x\<bar> / y < 2 ^ 1023 \<longrightarrow>
        (\<exists>rest. load_video_frames VideoCapture cvt video_path fps =
           Inr (cvt (hd (frames (VideoCapture video_path))) # rest))) \<and>
     (\<forall>x n. frame_rate (VideoCapture video_path) = Finite x \<and> fps = PyInt n \<and>
            0 < n \<and> n < 2 ^ 1023 \<and> \<bar>x\<bar> < 2 ^ 1023 \<longrightarrow>
        (\<exists>rest. load_video_frames VideoCapture cvt video_path fps =
           Inr (cvt (hd (frames (VideoCapture video_path))) # rest)))"
proof (intro conjI allI impI)
  fix stride
  assume "frame_skip (frame_rate (VideoCapture video_path)) fps = Inr stride"
  with assms show "\<exists>rest. load_video_frames VideoCapture cvt video_path fps =
           Inr (cvt (hd (frames (VideoCapture video_path))) # rest)"
    by (rule load_video_frames_first)
next
  fix x y
  assume a: "frame_rate (VideoCapture video_path) = Finite x \<and> fps = PyFloat (Finite y) \<and>
            0 < y \<and> \<bar>x\<bar> / y < 2 ^ 1023"
  then have "to_float fps = Inr (Finite y)" and "y \<noteq> 0" and "\<bar>x / y\<bar> < 2 ^ 1023"
    by (auto simp: to_float_def)
  then obtain stride where "frame_skip (Finite x) fps = Inr stride"
    using frame_skip_finite_quotient by blast
  then have "frame_skip (frame_rate (VideoCapture video_path)) fps = Inr stride"
    using a by simp
  with assms show "\<exists>rest. load_video_frames VideoCapture cvt video_path fps =
           Inr (cvt (hd (frames (VideoCapture video_path))) # rest)"
    by (rule load_video_frames_first)
next
  fix x n
  assume a: "frame_rate (VideoCapture video_path) = Finite x \<and> fps = PyInt n \<and>
            0 < n \<and> n < 2 ^ 1023 \<and> \<bar>x\<bar> < 2 ^ 1023"
  then have "n \<noteq> 0" and "\<bar>n\<bar> < 2 ^ 1023" by auto
  then obtain y where y: "to_float (PyInt n) = Inr (Finite y)" "1 \<le> \<bar>y\<bar>"
    using to_float_int by blast
  have "\<bar>x / y\<bar> = \<bar>x\<bar> / \<bar>y\<bar>" by simp
  also have "\<dots> \<le> \<bar>x\<bar> / 1" using y(2) by (intro divide_left_mono) auto
  also have "\<dots> < 2 ^ 1023" using a by simp
  finally have "\<bar>x / y\<bar> < 2 ^ 1023" .
  moreover have "y \<noteq> 0" using y(2) by auto
  ultimately obtain stride where "frame_skip (Finite x) fps = Inr stride"
    using frame_skip_finite_quotient [of fps y x] y(1) a by auto
  then have "frame_skip (frame_rate (VideoCapture video_path)) fps = Inr stride"
    using a by simp
  with assms show "\<exists>rest. load_video_frames VideoCapture cvt video_path fps =
           Inr (cvt (hd (frames (VideoCapture video_path))) # rest)"
    by (rule load_video_frames_first)
qed

theorem load_video_frames_keeps_first_witness:
  "(\<exists>rest. load_video_frames (\<lambda>_. \<lparr>frame_rate = Finite 60, frames = [7, 8, 9 :: nat]\<rparr>) id
      ''a.mp4'' (PyInt 8) = Inr (7 # rest)) \<and>
   (\<exists>rest. load_video_frames (\<lambda>_. \<lparr>frame_rate = Finite 60, frames = [7, 8, 9 :: nat]\<rparr>) id
      ''a.mp4'' (PyFloat (Finite (1 / 2))) = Inr (7 # rest))"
proof -
  let ?cap = "\<lambda>_ :: string. \<lparr>frame_rate = Finite 60, frames = [7, 8, 9 :: nat]\<rparr>"
  have h: "frames (?cap ''a.mp4'') \<noteq> []" by simp
  have i: "frame_rate (?cap ''a.mp4'') = Finite 60 \<and> PyInt 8 = PyInt 8 \<and>
      (0::int) < 8 \<and> (8::int) < 2 ^ 1023 \<and> \<bar>60 :: rat\<bar> < 2 ^ 1023"
    by simp
  have f: "frame_rate (?cap ''a.mp4'') = Finite 60 \<and>
      PyFloat (Finite (1 / 2)) = PyFloat (Finite (1 / 2)) \<and>
      (0::rat) < 1 / 2 \<and> \<bar>60 :: rat\<bar> / (1 / 2) < 2 ^ 1023"
    by simp
  have 1: "\<exists>rest. load_video_frames ?cap id ''a.mp4'' (PyInt 8)
      = Inr (id (hd (frames (?cap ''a.mp4''))) # rest)"
    using load_video_frames_keeps_first [of ?cap "''a.mp4''" "PyInt 8" id, OF h] i by blast
  have 2: "\<exists>rest. load_video_frames ?cap id ''a.mp4'' (PyFloat (Finite (1 / 2)))
      = Inr (id (hd (frames (?cap ''a.mp4''))) # rest)"
    using load_video_frames_keeps_first [of ?cap "''a.mp4''" "PyFloat (Finite (1 / 2))" id, OF h]
      f by blast
  from 1 2 show ?thesis by simp
qed

text \<open>
  C10 as stated (any positive \<open>fps\<close>) does not hold: for a frame rate of 30 and the
  positive float \<open>fps = 2^-1020\<close> the quotient overflows to infinity, \<open>round\<close>
  raises \<open>OverflowError\<close>, and no frame is returned.
\<close>

theorem tiny_fps_counterexample:
  "load_video_frames (\<lambda>_. \<lparr>frame_rate = Finite 30, frames = [7, 8, 9 :: nat]\<rparr>) id ''a.mp4''
     (PyFloat (Finite (1 / 2 ^ 1020))) = Inl OverflowError"
proof -
  have "to_double (30 / (1 / 2 ^ 1020)) = PosInf"
    using to_double_overflow [of "30 / (1 / 2 ^ 1020)"] by simp
  then have "frame_skip (Finite 30) (PyFloat (Finite (1 / 2 ^ 1020))) = Inl OverflowError"
    by (simp add: frame_skip_def py_truediv_def to_float_def float_div_def py_round_def)
  then show ?thesis
    by (simp add: load_video_frames_def)
qed

subsection \<open>Dataset and CorpusIndex\<close>

text \<open>
  C1. The spec asks that a corpus of two videos with \<open>N_A\<close> and \<open>N_B\<close> Examples
  has size \<open>N_A + N_B\<close> and that \<open>get(N_A)\<close> is the first Example of video B. In
  the code each video contributes the two tensors \<open>X\<close> and \<open>y\<close>: for a video A of
  three sampled frames and a video B of two, the dataset has four items, not five, and
  item 3 is the stacked targets of B, not B's first Example.
\<close>

theorem dataset_two_videos_size:
  "load_and_process_videos torch_cpu
     (\<lambda>p. if p = ''videos/a.mp4'' then \<lparr>frame_rate = Finite 8, frames = [1, 2, 3 :: nat]\<rparr>
          else \<lparr>frame_rate = Finite 8, frames = [4, 5]\<rparr>)
     id (\<lambda>n. Tensor Float32 [2] [Finite (of_nat n), Finite 7]) (PyInt 8)
     [''videos/a.mp4'', ''videos/b.mp4'']
   = Inr [Tensor Float32 [3, 3, 2]
            [Finite 0, Finite 0, Finite 0, Finite 0, Finite 0, Finite 0,
             Finite 0, Finite 0, Finite 0, Finite 0, Finite 1, Finite 7,
             Finite 0, Finite 0, Finite 1, Finite 7, Finite 2, Finite 7],
          Tensor Float32 [3, 2] [Finite 1, Finite 7, Finite 2, Finite 7, Finite 3, Finite 7],
          Tensor Float32 [2, 3, 2]
            [Finite 0, Finite 0, Finite 0, Finite 0, Finite 0, Finite 0,
             Finite 0, Finite 0, Finite 0, Finite 0, Finite 4, Finite 7],
          Tensor Float32 [2, 2] [Finite 4, Finite 7, Finite 5, Finite 7]] \<and>
   dataset_len
         [Tensor Float32 [3, 3, 2]
            [Finite 0, Finite 0, Finite 0, Finite 0, Finite 0, Finite 0,
             Finite 0, Finite 0, Finite 0, Finite 0, Finite 1, Finite 7,
             Finite 0, Finite 0, Finite 1, Finite 7, Finite 2, Finite 7],
          Tensor Float32 [3, 2] [Finite 1, Finite 7, Finite 2, Finite 7, Finite 3, Finite 7],
          Tensor Float32 [2, 3, 2]
            [Finite 0, Finite 0, Finite 0, Finite 0, Finite 0, Finite 0,
             Finite 0, Finite 0, Finite 0, Finite 0, Finite 4, Finite 7],
          Tensor Float32 [2, 2] [Finite 4, Finite 7, Finite 5, Finite 7]] = 4 \<and>
   dataset_getitem
         [Tensor Float32 [3, 3, 2]
            [Finite 0, Finite 0, Finite 0, Finite 0, Finite 0, Finite 0,
             Finite 0, Finite 0, Finite 0, Finite 0, Finite 1, Finite 7,
             Finite 0, Finite 0, Finite 1, Finite 7, Finite 2, Finite 7],
          Tensor Float32 [3, 2] [Finite 1, Finite 7, Finite 2, Finite 7, Finite 3, Finite 7],
          Tensor Float32 [2, 3, 2]
            [Finite 0, Finite 0, Finite 0, Finite 0, Finite 0, Finite 0,
             Finite 0, Finite 0, Finite 0, Finite 0, Finite 4, Finite 7],
          Tensor Float32 [2, 2] [Finite 4, Finite 7, Finite 5, Finite 7]] 3
     = Inr (Tensor Float32 [2, 2] [Finite 4, Finite 7, Finite 5, Finite 7])"
proof -
  have q: "py_truediv (Finite 8) (PyInt 8) = Inr (Finite 1)"
    by (simp add: py_truediv_def to_float_def to_double_8 float_div_def to_double_1)
  have skip: "frame_skip (Finite 8) (PyInt 8) = Inr 1"
    by (simp add: frame_skip_Finite [OF q])
  have a: "prepare_data torch_cpu
        [Tensor Float32 [2] [Finite 1, Finite 7], Tensor Float32 [2] [Finite 2, Finite 7],
         Tensor Float32 [2] [Finite 3, Finite 7]]
      = Inr (Tensor Float32 [3, 3, 2]
            [Finite 0, Finite 0, Finite 0, Finite 0, Finite 0, Finite 0,
             Finite 0, Finite 0, Finite 0, Finite 0, Finite 1, Finite 7,
             Finite 0, Finite 0, Finite 1, Finite 7, Finite 2, Finite 7],
             Tensor Float32 [3, 2]
               [Finite 1, Finite 7, Finite 2, Finite 7, Finite 3, Finite 7])"
    by (simp add: prepare_data_def context_row_def torch_stack_def torch_zeros_def numel_def
        result_dtype_def to_dtype_def torch_cpu_def zero_fval_def upt_rec numeral_2_eq_2)
  have b: "prepare_data torch_cpu
        [Tensor Float32 [2] [Finite 4, Finite 7], Tensor Float32 [2] [Finite 5, Finite 7]]
      = Inr (Tensor Float32 [2, 3, 2]
            [Finite 0, Finite 0, Finite 0, Finite 0, Finite 0, Finite 0,
             Finite 0, Finite 0, Finite 0, Finite 0, Finite 4, Finite 7],
             Tensor Float32 [2, 2] [Finite 4, Finite 7, Finite 5, Finite 7])"
    by (simp add: prepare_data_def context_row_def torch_stack_def torch_zeros_def numel_def
        result_dtype_def to_dtype_def torch_cpu_def zero_fval_def upt_rec numeral_2_eq_2)
  show ?thesis
    by (simp add: load_and_process_videos_def load_video_frames_def skip
        get_frame_embeddings_def a b dataset_len_def dataset_getitem_def)
qed

text \<open>
  C7, as the code has it. \<open>__getitem__\<close> indexes a Python list: it raises
  \<open>IndexError\<close> for an index at or above the size or below minus the size, returns
  the stored item at a position in \<open>[0, size)\<close>, and for an index in
  \<open>[-size, 0)\<close> returns the item counted from the end.
\<close>

theorem dataset_getitem_range:
  "(idx < - dataset_len dataset \<or> dataset_len dataset \<le> idx \<longrightarrow>
      dataset_getitem dataset idx = Inl IndexError) \<and>
   (0 \<le> idx \<and> idx < dataset_len dataset \<longrightarrow>
      dataset_getitem dataset idx = Inr (dataset ! nat idx)) \<and>
   (- dataset_len dataset \<le> idx \<and> idx < 0 \<longrightarrow>
      dataset_getitem dataset idx = Inr (dataset ! nat (idx + dataset_len dataset)))"
  by (auto simp: dataset_getitem_def dataset_len_def Let_def)

theorem dataset_getitem_range_witness:
  "dataset_getitem [10, 20, 30 :: nat] 3 = Inl IndexError \<and>
   dataset_getitem [10, 20, 30 :: nat] (- 4) = Inl IndexError \<and>
   dataset_getitem [10, 20, 30 :: nat] 1 = Inr 20 \<and>
   dataset_getitem [10, 20, 30 :: nat] (- 3) = Inr 10"
  using dataset_getitem_range [of 3 "[10, 20, 30 :: nat]"]
    dataset_getitem_range [of "- 4" "[10, 20, 30 :: nat]"]
    dataset_getitem_range [of 1 "[10, 20, 30 :: nat]"]
    dataset_getitem_range [of "- 3" "[10, 20, 30 :: nat]"]
  by (simp add: dataset_len_def)

text \<open>
  C7 as stated does not hold: index \<open>-1\<close> lies outside \<open>[0, size)\<close>, and it
  returns the last item instead of failing.
\<close>

theorem dataset_getitem_negative_counterexample:
  "dataset_getitem [10, 20, 30 :: nat] (- 1) = Inr 30"
  by (simp add: dataset_getitem_def)

text \<open>
  C8. \<open>load_video_paths\<close> returns the empty list for an existing empty directory,
  raises \<open>FileNotFoundError\<close> for a path where nothing exists, and for a directory
  returns, in listing order, the joined paths of exactly those of its own entries whose
  name ends in \<open>.mp4\<close>; entries of subdirectories are not visited.
\<close>

theorem load_video_paths_listing:
  "(fs training_path = Some (Dir []) \<longrightarrow> load_video_paths fs training_path = Inr []) \<and>
   (fs training_path = None \<longrightarrow> load_video_paths fs training_path = Inl FileNotFoundError) \<and>
   (\<forall>entries. fs training_path = Some (Dir entries) \<longrightarrow>
      load_video_paths fs training_path =
        Inr (map (os_path_join training_path)
               (filter (\<lambda>f. endswith f ''.mp4'') (map fst entries))))"
  by (simp add: load_video_paths_def os_listdir_def)

theorem load_video_paths_listing_witness:
  "load_video_paths [''empty'' \<mapsto> Dir []] ''empty'' = Inr [] \<and>
   load_video_paths [''empty'' \<mapsto> Dir []] ''missing'' = Inl FileNotFoundError \<and>
   load_video_paths
     [''videos'' \<mapsto> Dir [(''a.mp4'', File), (''notes.txt'', File),
                        (''sub'', Dir [(''deep.mp4'', File)]), (''b.mp4'', File)]]
     ''videos''
     = Inr [''videos/a.mp4'', ''videos/b.mp4'']"
  using load_video_paths_listing [of "[''empty'' \<mapsto> Dir []]" "''empty''"]
    load_video_paths_listing [of "[''empty'' \<mapsto> Dir []]" "''missing''"]
    load_video_paths_listing
      [of "[''videos'' \<mapsto> Dir [(''a.mp4'', File), (''notes.txt'', File),
                        (''sub'', Dir [(''deep.mp4'', File)]), (''b.mp4'', File)]]" "''videos''"]
  by (simp add: os_path_join_def endswith_def)

end
